theory Spec2Isabelle
  imports Main "HOL-Library.Sublist"
begin

section \<open>Template renderer (supabase/functions/send-follow-up/index.ts)\<close>

text \<open>
  \<^verbatim>\<open>replaceTemplateVariables(template, variables)\<close> walks over
  \<^verbatim>\<open>Object.entries(variables)\<close> in insertion order and, for every entry, runs
  \<^verbatim>\<open>result = result.replace(new RegExp(`{{${key}}}`, 'g'), value || '')\<close>.

  The key goes into the pattern unescaped. When the key is made of letters, digits and
  underscores and does not start with a digit (\<open>plain_key\<close>; the six keys the program
  uses are of that form), the regular expression matches the text of the placeholder
  and nothing else: no brace of the pattern opens a well-formed quantifier, so each
  one stands for itself. For any other key the pattern is some other regular
  expression (a dot matches any character, a digit after the braces makes a
  quantifier of them), or none at all when the constructor throws.
\<close>

definition word_chars :: string where
  "word_chars = ''abcdefghijklmnopqrstuvwxyzABCDEFGHIJKLMNOPQRSTUVWXYZ0123456789_''"

definition plain_key :: "string \<Rightarrow> bool" where
  "plain_key key = (list_all (\<lambda>c. c \<in> set word_chars) key \<and>
     (case key of [] \<Rightarrow> True | c # _ \<Rightarrow> c \<notin> set ''0123456789''))"

definition plain_keys :: "(string \<times> string option) list \<Rightarrow> bool" where
  "plain_keys m = list_all (\<lambda>kv. plain_key (fst kv)) m"

definition placeholder :: "string \<Rightarrow> string" where
  "placeholder key = ''{{'' @ key @ ''}}''"

text \<open>
  The replacement string of \<^verbatim>\<open>String.prototype.replace\<close> is not inserted verbatim:
  \<^verbatim>\<open>$$\<close> stands for a dollar sign, \<^verbatim>\<open>$&\<close> for the matched text, \<^verbatim>\<open>$`\<close> for the
  part of the subject before the match and \<^verbatim>\<open>$'\<close> for the part after it. The pattern
  has no capture group, so \<^verbatim>\<open>$1\<close>, \<^verbatim>\<open>$<name>\<close> and a lone dollar sign stay as
  they are.
\<close>

fun get_substitution :: "string \<Rightarrow> string \<Rightarrow> string \<Rightarrow> string \<Rightarrow> string" where
  "get_substitution matched bef aft [] = []"
| "get_substitution matched bef aft [c] = [c]"
| "get_substitution matched bef aft (c # d # rest) =
     (if c = CHR ''$'' then
        (if d = CHR ''$'' then CHR ''$'' # get_substitution matched bef aft rest
         else if d = CHR ''&'' then matched @ get_substitution matched bef aft rest
         else if d = CHR 0x60 then bef @ get_substitution matched bef aft rest
         else if d = CHR 0x27 then aft @ get_substitution matched bef aft rest
         else c # get_substitution matched bef aft (d # rest))
      else c # get_substitution matched bef aft (d # rest))"

text \<open>
  The scan of \<^verbatim>\<open>replace\<close> with the global flag when the pattern matches the text of
  the placeholder and nothing else: the subject is read from left to right, every
  occurrence of the placeholder is replaced, and the scan resumes right after the
  match, in the subject and not in the text just inserted. \<open>bef\<close> is the part of the
  subject already scanned.
\<close>

function scan_placeholder :: "string \<Rightarrow> string \<Rightarrow> string \<Rightarrow> string \<Rightarrow> string" where
  "scan_placeholder key val bef [] = []"
| "scan_placeholder key val bef (c # cs) =
     (if prefix (placeholder key) (c # cs)
      then get_substitution (placeholder key) bef
             (drop (length (placeholder key)) (c # cs)) val
           @ scan_placeholder key val (bef @ placeholder key)
               (drop (length (placeholder key)) (c # cs))
      else c # scan_placeholder key val (bef @ [c]) cs)"
  by pat_completeness auto
termination
  by (relation "measure (\<lambda>(key, val, bef, s). length s)")
     (auto simp: placeholder_def)

text \<open>
  \<^verbatim>\<open>result.replace(new RegExp(`{{${key}}}`, 'g'), val)\<close>. For a plain key it is the scan
  above. What the source does with any other key is not modelled: the result is
  left unspecified, and nothing is proved about it.
\<close>

definition replace_global :: "string \<Rightarrow> string \<Rightarrow> string \<Rightarrow> string \<Rightarrow> string" where
  "replace_global key val bef s =
     (if plain_key key then scan_placeholder key val bef s else undefined)"

text \<open>\<^verbatim>\<open>value || ''\<close>: a null, undefined or empty value is replaced by the empty string.\<close>

definition or_empty :: "string option \<Rightarrow> string" where
  "or_empty v = (case v of None \<Rightarrow> [] | Some s \<Rightarrow> s)"

fun replaceTemplateVariables :: "string \<Rightarrow> (string \<times> string option) list \<Rightarrow> string" where
  "replaceTemplateVariables template [] = template"
| "replaceTemplateVariables template ((key, val) # variables) =
     replaceTemplateVariables (replace_global key (or_empty val) [] template) variables"

text \<open>
  \<^verbatim>\<open>htmlContent.replace(/<[^>]*>/g, '')\<close>: a \<^verbatim>\<open><\<close> with a \<^verbatim>\<open>>\<close> somewhere after it is
  removed together with everything up to the first such \<^verbatim>\<open>>\<close>.
\<close>

function strip_tags :: "string \<Rightarrow> string" where
  "strip_tags [] = []"
| "strip_tags (c # cs) =
     (if c = CHR ''<'' \<and> CHR ''>'' \<in> set cs
      then strip_tags (tl (dropWhile (\<lambda>x. x \<noteq> CHR ''>'') cs))
      else c # strip_tags cs)"
  by pat_completeness auto
termination
proof (relation "measure length")
  show "wf (measure length)" by simp
next
  fix c :: char and cs :: string
  have "length (tl (dropWhile (\<lambda>x. x \<noteq> CHR ''>'') cs)) \<le> length cs"
    using length_dropWhile_le[of "\<lambda>x. x \<noteq> CHR ''>''" cs] by simp
  then show "(tl (dropWhile (\<lambda>x. x \<noteq> CHR ''>'') cs), c # cs) \<in> measure length"
    by simp
next
  fix c :: char and cs :: string
  show "(cs, c # cs) \<in> measure length" by simp
qed

subsection \<open>Templates as segments\<close>

text \<open>
  A template in which braces occur only as the delimiters of placeholders is a list
  of segments: literal text without braces, and placeholders with a brace-free name.
  \<open>expand_seg\<close> is the substitution of one segment in a single pass over the
  template; a placeholder whose name the mapping does not have stays a placeholder.
\<close>

datatype segment = Lit string | Var string

fun flatten :: "segment list \<Rightarrow> string" where
  "flatten [] = []"
| "flatten (Lit s # segs) = s @ flatten segs"
| "flatten (Var n # segs) = placeholder n @ flatten segs"

definition brace_free :: "string \<Rightarrow> bool" where
  "brace_free s = (CHR ''{'' \<notin> set s \<and> CHR ''}'' \<notin> set s)"

fun seg_text :: "segment \<Rightarrow> string" where
  "seg_text (Lit s) = s"
| "seg_text (Var n) = n"

definition well_formed :: "segment list \<Rightarrow> bool" where
  "well_formed segs = list_all (\<lambda>seg. brace_free (seg_text seg)) segs"

definition plain_value :: "string \<Rightarrow> bool" where
  "plain_value v = (brace_free v \<and> CHR ''$'' \<notin> set v)"

definition plain_mapping :: "(string \<times> string option) list \<Rightarrow> bool" where
  "plain_mapping m = list_all (\<lambda>(k, v). plain_key k \<and> plain_value (or_empty v)) m"

fun expand_seg :: "(string \<times> string option) list \<Rightarrow> segment \<Rightarrow> segment" where
  "expand_seg m (Lit s) = Lit s"
| "expand_seg m (Var n) =
     (case map_of m n of None \<Rightarrow> Var n | Some v \<Rightarrow> Lit (or_empty v))"

fun subst1 :: "string \<Rightarrow> string \<Rightarrow> segment \<Rightarrow> segment" where
  "subst1 k v (Lit s) = Lit s"
| "subst1 k v (Var n) = (if n = k then Lit v else Var n)"

section \<open>The relational store (database-*.sql)\<close>

text \<open>
  One record per table, with the columns the follow-up engine reads or writes. A
  nullable column is an \<open>option\<close>. \<^verbatim>\<open>visitors.email\<close> and \<^verbatim>\<open>visitors.phone\<close> are
  declared \<^verbatim>\<open>NOT NULL\<close>, but the resolver returns them as plain \<^verbatim>\<open>TEXT\<close> and the
  orchestrator tests them for absence, so the model lets them be NULL as well;
  an absent contact of a stored visitor is the empty string.
\<close>

type_synonym uuid = string

record visitor_row =
  v_id :: uuid
  v_name :: string
  v_email :: "string option"
  v_phone :: "string option"
  v_visit_date :: "string option"
  v_property_id :: "uuid option"

record property_row =
  p_id :: uuid
  p_name :: string
  p_address :: string

record feedback_row =
  f_id :: uuid
  f_visitor_id :: "uuid option"
  f_interested :: "bool option"

record campaign_row =
  c_id :: uuid
  c_property_id :: "uuid option"
  c_admin_id :: "uuid option"
  c_message_type :: string
  c_trigger_condition :: string
  c_email_subject :: "string option"
  c_email_template :: "string option"
  c_email_from_name :: "string option"
  c_sms_template :: "string option"

text \<open>
  The orchestrator reads \<^verbatim>\<open>name\<close>, \<^verbatim>\<open>email\<close> and \<^verbatim>\<open>phone\<close> of the admin row
  (interface \<^verbatim>\<open>Admin\<close>); a column the table does not have reads as undefined.
\<close>

record admin_row =
  a_id :: uuid
  a_name :: "string option"
  a_email :: "string option"
  a_phone :: "string option"

record unsubscribe_row =
  u_id :: uuid
  u_email :: "string option"
  u_phone :: "string option"
  u_unsubscribe_type :: string

record follow_up_log =
  lg_visitor_id :: uuid
  lg_campaign_id :: "uuid option"
  lg_property_id :: "uuid option"
  lg_admin_id :: "uuid option"
  lg_message_type :: string
  lg_recipient_email :: "string option"
  lg_recipient_phone :: "string option"
  lg_subject :: "string option"
  lg_message_content :: string
  lg_status :: "string option"
  lg_external_id :: "string option"
  lg_error_message :: "string option"

record database =
  visitors :: "visitor_row list"
  properties :: "property_row list"
  feedback :: "feedback_row list"
  follow_up_campaigns :: "campaign_row list"
  admins :: "admin_row list"
  unsubscribes :: "unsubscribe_row list"
  follow_up_logs :: "follow_up_log list"

subsection \<open>SQL's three-valued logic\<close>

text \<open>
  A condition is true, false or unknown (\<open>None\<close>); a comparison with NULL is unknown;
  a join condition and a \<^verbatim>\<open>WHERE\<close> clause keep a row only when the condition is true.
\<close>

definition sql_eq :: "'a option \<Rightarrow> 'a option \<Rightarrow> bool option" where
  "sql_eq a b = (case a of None \<Rightarrow> None
                 | Some x \<Rightarrow> (case b of None \<Rightarrow> None | Some y \<Rightarrow> Some (x = y)))"

definition sql_and :: "bool option \<Rightarrow> bool option \<Rightarrow> bool option" where
  "sql_and a b =
     (if a = Some False \<or> b = Some False then Some False
      else if a = Some True \<and> b = Some True then Some True else None)"

definition sql_or :: "bool option \<Rightarrow> bool option \<Rightarrow> bool option" where
  "sql_or a b =
     (if a = Some True \<or> b = Some True then Some True
      else if a = Some False \<and> b = Some False then Some False else None)"

definition sql_not :: "bool option \<Rightarrow> bool option" where
  "sql_not a = map_option Not a"

text \<open>\<^verbatim>\<open>x IN (l1, ..., ln)\<close> with literals that are not NULL.\<close>

definition sql_in :: "'a option \<Rightarrow> 'a list \<Rightarrow> bool option" where
  "sql_in a ls = map_option (\<lambda>x. x \<in> set ls) a"

definition is_true :: "bool option \<Rightarrow> bool" where
  "is_true a = (a = Some True)"

text \<open>
  \<^verbatim>\<open>rows LEFT JOIN tbl ON cond\<close>: every row is paired with each matching row of
  \<open>tbl\<close>, or once with NULLs when there is none.
\<close>

definition left_join ::
  "'a list \<Rightarrow> 'b list \<Rightarrow> ('a \<Rightarrow> 'b \<Rightarrow> bool option) \<Rightarrow> ('a \<times> 'b option) list" where
  "left_join rows tbl cond =
     concat (map (\<lambda>r. case filter (\<lambda>t. is_true (cond r t)) tbl of
                         [] \<Rightarrow> [(r, None)]
                       | ms \<Rightarrow> map (\<lambda>t. (r, Some t)) ms) rows)"

text \<open>A column of a row that an outer join may have filled with NULLs.\<close>

definition col :: "('r \<Rightarrow> 'a) \<Rightarrow> 'r option \<Rightarrow> 'a option" where
  "col f r = map_option f r"

definition ncol :: "('r \<Rightarrow> 'a option) \<Rightarrow> 'r option \<Rightarrow> 'a option" where
  "ncol f r = (case r of None \<Rightarrow> None | Some x \<Rightarrow> f x)"

definition coalesce :: "'a option \<Rightarrow> 'a \<Rightarrow> 'a" where
  "coalesce a d = (case a of None \<Rightarrow> d | Some x \<Rightarrow> x)"

section \<open>Eligibility resolver (get_eligible_visitors, database-enhanced-forms.sql)\<close>

record VisitorData =
  visitor_id :: uuid
  visitor_name :: string
  visitor_email :: "string option"
  visitor_phone :: "string option"
  property_id :: "uuid option"
  property_name :: "string option"
  property_address :: "string option"
  visit_date :: "string option"
  interested :: bool
  has_feedback :: bool

type_synonym joined_row =
  "(((visitor_row \<times> property_row option) \<times> feedback_row option) \<times> campaign_row option)
   \<times> unsubscribe_row option"

text \<open>The \<^verbatim>\<open>ON\<close> condition of the join with \<^verbatim>\<open>unsubscribes\<close>.\<close>

definition unsubscribe_on :: "visitor_row \<Rightarrow> unsubscribe_row \<Rightarrow> bool option" where
  "unsubscribe_on v u =
     sql_or (sql_and (sql_eq (u_email u) (v_email v))
                     (sql_in (Some (u_unsubscribe_type u)) [''email'', ''both'']))
            (sql_and (sql_eq (u_phone u) (v_phone v))
                     (sql_in (Some (u_unsubscribe_type u)) [''sms'', ''both'']))"

text \<open>The \<^verbatim>\<open>CASE\<close> expression on the campaign's trigger condition.\<close>

definition trigger_case :: "campaign_row option \<Rightarrow> feedback_row option \<Rightarrow> bool option" where
  "trigger_case c f =
     (if is_true (sql_eq (col c_trigger_condition c) (Some ''interested''))
        then sql_eq (Some (coalesce (ncol f_interested f) False)) (Some True)
      else if is_true (sql_eq (col c_trigger_condition c) (Some ''no_feedback''))
        then Some (col f_id f = None)
      else if is_true (sql_eq (col c_trigger_condition c) (Some ''all'')) then Some True
      else if is_true (sql_eq (col c_trigger_condition c) (Some ''manual'')) then Some True
      else Some False)"

text \<open>The subquery under \<^verbatim>\<open>NOT EXISTS\<close>.\<close>

definition already_sent_rows :: "database \<Rightarrow> uuid \<Rightarrow> visitor_row \<Rightarrow> follow_up_log list" where
  "already_sent_rows db campaign_id_param v =
     filter (\<lambda>fl. is_true
        (sql_and (sql_eq (Some (lg_visitor_id fl)) (Some (v_id v)))
          (sql_and (sql_eq (lg_campaign_id fl) (Some campaign_id_param))
                   (sql_not (sql_in (lg_status fl) [''failed''])))))
       (follow_up_logs db)"

definition where_clause :: "database \<Rightarrow> uuid \<Rightarrow> uuid option \<Rightarrow> joined_row \<Rightarrow> bool option" where
  "where_clause db campaign_id_param property_id_param row =
     (case row of ((((v, p), f), c), u) \<Rightarrow>
        sql_and (sql_or (Some (property_id_param = None))
                        (sql_eq (v_property_id v) property_id_param))
       (sql_and (sql_or (Some (ncol c_property_id c = None))
                        (sql_eq (v_property_id v) (ncol c_property_id c)))
       (sql_and (Some (col u_id u = None))
       (sql_and (trigger_case c f)
                (Some (already_sent_rows db campaign_id_param v = []))))))"

definition select_row :: "joined_row \<Rightarrow> VisitorData" where
  "select_row row =
     (case row of ((((v, p), f), c), u) \<Rightarrow>
        \<lparr>visitor_id = v_id v,
         visitor_name = v_name v,
         visitor_email = v_email v,
         visitor_phone = v_phone v,
         property_id = v_property_id v,
         property_name = col p_name p,
         property_address = col p_address p,
         visit_date = v_visit_date v,
         interested = coalesce (ncol f_interested f) False,
         has_feedback = (col f_id f \<noteq> None)\<rparr>)"

definition joined_rows :: "database \<Rightarrow> uuid \<Rightarrow> joined_row list" where
  "joined_rows db campaign_id_param =
     left_join
       (left_join
         (left_join
           (left_join (visitors db) (properties db)
              (\<lambda>v p. sql_eq (v_property_id v) (Some (p_id p))))
           (feedback db)
           (\<lambda>(v, p) f. sql_eq (Some (v_id v)) (f_visitor_id f)))
         (follow_up_campaigns db)
         (\<lambda>_ c. sql_eq (Some (c_id c)) (Some campaign_id_param)))
       (unsubscribes db)
       (\<lambda>(((v, p), f), c) u. unsubscribe_on v u)"

definition get_eligible_visitors :: "database \<Rightarrow> uuid \<Rightarrow> uuid option \<Rightarrow> VisitorData list" where
  "get_eligible_visitors db campaign_id_param property_id_param =
     map select_row
       (filter (\<lambda>row. is_true (where_clause db campaign_id_param property_id_param row))
          (joined_rows db campaign_id_param))"

section \<open>Dispatch orchestrator (supabase/functions/send-follow-up/index.ts)\<close>

record SendFollowUpRequest =
  campaignId :: "string option"
  visitorIds :: "string list option"
  propertyId :: "string option"
  messageType :: "string option"

text \<open>What \<^verbatim>\<open>sendEmail\<close> and \<^verbatim>\<open>sendSMS\<close> resolve to; neither ever throws.\<close>

record send_result =
  success :: bool
  messageId :: "string option"
  error :: "string option"

text \<open>
  Everything outside the program is a parameter of the run: the two providers behind
  \<^verbatim>\<open>sendEmail\<close> and \<^verbatim>\<open>sendSMS\<close>, and whether a request to the store comes back
  with an error.
\<close>

record environment =
  sendEmail :: "string \<Rightarrow> string \<Rightarrow> string \<Rightarrow> string \<Rightarrow> string option \<Rightarrow> send_result"
  sendSMS :: "string \<Rightarrow> string \<Rightarrow> send_result"
  campaign_query_error :: bool
  admin_query_error :: bool
  rpc_error :: "string option"
  visitor_query_error :: bool
  insert_error :: "follow_up_log \<Rightarrow> bool"

text \<open>The calls made to the two providers, in order.\<close>

datatype message =
  Email string string string string "string option"
| Sms string string

record results =
  sent :: nat
  failed :: nat
  errors :: "string list"

record run_state =
  st_db :: database
  st_results :: results
  st_outbox :: "message list"

datatype response =
  Preflight
| NoEligibleVisitors
| Processed nat nat "string list" nat
| Failure string

text \<open>
  \<open>Preflight\<close> is the answer to \<^verbatim>\<open>OPTIONS\<close>; \<open>NoEligibleVisitors\<close> is
  \<^verbatim>\<open>{success: true, message: 'No eligible visitors found', sent: 0}\<close>;
  \<open>Processed sent failed errors visitorsProcessed\<close> is the answer after the loop,
  with \<^verbatim>\<open>success: true\<close>; \<open>Failure msg\<close> is \<^verbatim>\<open>{success: false, error: msg}\<close> with
  status 500, the only way an error reaches the caller.
\<close>

fun response_success :: "response \<Rightarrow> bool" where
  "response_success (Failure msg) = False"
| "response_success r = True"

text \<open>A string is truthy when it is neither null, undefined nor empty.\<close>

definition truthy :: "string option \<Rightarrow> bool" where
  "truthy v = (case v of None \<Rightarrow> False | Some s \<Rightarrow> s \<noteq> [])"

text \<open>\<^verbatim>\<open>value || null\<close>.\<close>

definition or_null :: "string option \<Rightarrow> string option" where
  "or_null v = (if truthy v then v else None)"

text \<open>A value inside a template literal; undefined prints as such.\<close>

definition js_string :: "string option \<Rightarrow> string" where
  "js_string v = (case v of None \<Rightarrow> ''undefined'' | Some s \<Rightarrow> s)"

text \<open>\<^verbatim>\<open>.single()\<close>: an error, and no data, unless exactly one row is found.\<close>

definition single :: "'a list \<Rightarrow> 'a option" where
  "single rows = (case rows of [r] \<Rightarrow> Some r | _ \<Rightarrow> None)"

definition logFollowUp :: "environment \<Rightarrow> database \<Rightarrow> follow_up_log \<Rightarrow> database" where
  "logFollowUp env db entry =
     (if insert_error env entry then db
      else db\<lparr>follow_up_logs := follow_up_logs db @ [entry]\<rparr>)"

definition templateVariables :: "VisitorData \<Rightarrow> admin_row \<Rightarrow> (string \<times> string option) list" where
  "templateVariables visitor admin =
     [(''visitor_name'', Some (visitor_name visitor)),
      (''property_name'', property_name visitor),
      (''property_address'', property_address visitor),
      (''admin_name'', a_name admin),
      (''admin_email'', a_email admin),
      (''admin_phone'', a_phone admin)]"

text \<open>
  The property id written to the log: the one of the resolver's row, unless it is
  missing or shorter than 30 characters; then the one of the visitor's own record.
\<close>

definition actualPropertyId :: "environment \<Rightarrow> database \<Rightarrow> VisitorData \<Rightarrow> uuid option" where
  "actualPropertyId env db visitor =
     (if (case property_id visitor of None \<Rightarrow> True
                                     | Some pid \<Rightarrow> pid = [] \<or> length pid < 30)
      then (if visitor_query_error env then None
            else (case single (filter (\<lambda>v. v_id v = visitor_id visitor) (visitors db)) of
                    None \<Rightarrow> None
                  | Some v \<Rightarrow> or_null (v_property_id v)))
      else property_id visitor)"

definition effectiveMessageType :: "SendFollowUpRequest \<Rightarrow> campaign_row \<Rightarrow> string" where
  "effectiveMessageType req campaign =
     (if truthy (messageType req) then js_string (messageType req)
      else c_message_type campaign)"

text \<open>
  The email branch for one visitor: the rendered subject and body, the call of the
  provider, and the entry handed to \<^verbatim>\<open>logFollowUp\<close>.
\<close>

definition email_subject :: "campaign_row \<Rightarrow> admin_row \<Rightarrow> VisitorData \<Rightarrow> string" where
  "email_subject campaign admin visitor =
     replaceTemplateVariables (or_empty (c_email_subject campaign))
       (templateVariables visitor admin)"

definition email_htmlContent :: "campaign_row \<Rightarrow> admin_row \<Rightarrow> VisitorData \<Rightarrow> string" where
  "email_htmlContent campaign admin visitor =
     replaceTemplateVariables (or_empty (c_email_template campaign))
       (templateVariables visitor admin)"

definition email_message :: "campaign_row \<Rightarrow> admin_row \<Rightarrow> VisitorData \<Rightarrow> message" where
  "email_message campaign admin visitor =
     Email (js_string (visitor_email visitor))
       (email_subject campaign admin visitor)
       (email_htmlContent campaign admin visitor)
       (strip_tags (email_htmlContent campaign admin visitor))
       (c_email_from_name campaign)"

definition emailResult ::
  "environment \<Rightarrow> campaign_row \<Rightarrow> admin_row \<Rightarrow> VisitorData \<Rightarrow> send_result" where
  "emailResult env campaign admin visitor =
     sendEmail env (js_string (visitor_email visitor))
       (email_subject campaign admin visitor)
       (email_htmlContent campaign admin visitor)
       (strip_tags (email_htmlContent campaign admin visitor))
       (c_email_from_name campaign)"

definition email_log_entry ::
  "environment \<Rightarrow> database \<Rightarrow> campaign_row \<Rightarrow> admin_row \<Rightarrow> uuid \<Rightarrow> VisitorData \<Rightarrow>
   follow_up_log" where
  "email_log_entry env db campaign admin cid visitor =
     \<lparr>lg_visitor_id = visitor_id visitor,
      lg_campaign_id = Some cid,
      lg_property_id = actualPropertyId env db visitor,
      lg_admin_id = c_admin_id campaign,
      lg_message_type = ''email'',
      lg_recipient_email = visitor_email visitor,
      lg_recipient_phone = None,
      lg_subject = Some (email_subject campaign admin visitor),
      lg_message_content = email_htmlContent campaign admin visitor,
      lg_status = Some (if success (emailResult env campaign admin visitor)
                        then ''sent'' else ''failed''),
      lg_external_id = or_null (messageId (emailResult env campaign admin visitor)),
      lg_error_message = or_null (error (emailResult env campaign admin visitor))\<rparr>"

text \<open>The counters after a provider call: one more sent, or one more failed and its error.\<close>

definition count_result :: "string \<Rightarrow> string \<Rightarrow> send_result \<Rightarrow> results \<Rightarrow> results" where
  "count_result label recipient res r =
     (if success res then r\<lparr>sent := sent r + 1\<rparr>
      else r\<lparr>failed := failed r + 1,
             errors := errors r @ [label @ '' to '' @ recipient @ '': '' @ js_string (error res)]\<rparr>)"

definition send_email_step ::
  "environment \<Rightarrow> SendFollowUpRequest \<Rightarrow> campaign_row \<Rightarrow> admin_row \<Rightarrow> uuid \<Rightarrow>
   VisitorData \<Rightarrow> run_state \<Rightarrow> run_state" where
  "send_email_step env req campaign admin cid visitor st =
     (if effectiveMessageType req campaign = ''email''
         \<or> effectiveMessageType req campaign = ''both''
      then
        (if truthy (visitor_email visitor) then
           \<lparr>st_db = logFollowUp env (st_db st)
                      (email_log_entry env (st_db st) campaign admin cid visitor),
            st_results = count_result ''Email'' (js_string (visitor_email visitor))
                           (emailResult env campaign admin visitor) (st_results st),
            st_outbox = st_outbox st @ [email_message campaign admin visitor]\<rparr>
         else st)
      else st)"

text \<open>The sms branch, in the same way.\<close>

definition smsContent :: "campaign_row \<Rightarrow> admin_row \<Rightarrow> VisitorData \<Rightarrow> string" where
  "smsContent campaign admin visitor =
     replaceTemplateVariables (js_string (c_sms_template campaign))
       (templateVariables visitor admin)"

definition sms_message :: "campaign_row \<Rightarrow> admin_row \<Rightarrow> VisitorData \<Rightarrow> message" where
  "sms_message campaign admin visitor =
     Sms (js_string (visitor_phone visitor)) (smsContent campaign admin visitor)"

definition smsResult ::
  "environment \<Rightarrow> campaign_row \<Rightarrow> admin_row \<Rightarrow> VisitorData \<Rightarrow> send_result" where
  "smsResult env campaign admin visitor =
     sendSMS env (js_string (visitor_phone visitor)) (smsContent campaign admin visitor)"

definition sms_log_entry ::
  "environment \<Rightarrow> database \<Rightarrow> campaign_row \<Rightarrow> admin_row \<Rightarrow> uuid \<Rightarrow> VisitorData \<Rightarrow>
   follow_up_log" where
  "sms_log_entry env db campaign admin cid visitor =
     \<lparr>lg_visitor_id = visitor_id visitor,
      lg_campaign_id = Some cid,
      lg_property_id = actualPropertyId env db visitor,
      lg_admin_id = c_admin_id campaign,
      lg_message_type = ''sms'',
      lg_recipient_email = None,
      lg_recipient_phone = visitor_phone visitor,
      lg_subject = None,
      lg_message_content = smsContent campaign admin visitor,
      lg_status = Some (if success (smsResult env campaign admin visitor)
                        then ''sent'' else ''failed''),
      lg_external_id = or_null (messageId (smsResult env campaign admin visitor)),
      lg_error_message = or_null (error (smsResult env campaign admin visitor))\<rparr>"

definition send_sms_step ::
  "environment \<Rightarrow> SendFollowUpRequest \<Rightarrow> campaign_row \<Rightarrow> admin_row \<Rightarrow> uuid \<Rightarrow>
   VisitorData \<Rightarrow> run_state \<Rightarrow> run_state" where
  "send_sms_step env req campaign admin cid visitor st =
     (if effectiveMessageType req campaign = ''sms''
         \<or> effectiveMessageType req campaign = ''both''
      then
        (if truthy (visitor_phone visitor) \<and> truthy (c_sms_template campaign) then
           \<lparr>st_db = logFollowUp env (st_db st)
                      (sms_log_entry env (st_db st) campaign admin cid visitor),
            st_results = count_result ''SMS'' (js_string (visitor_phone visitor))
                           (smsResult env campaign admin visitor) (st_results st),
            st_outbox = st_outbox st @ [sms_message campaign admin visitor]\<rparr>
         else st)
      else st)"

text \<open>The body of the loop over the visitors: the email branch, then the sms branch.\<close>

definition process_visitor ::
  "environment \<Rightarrow> SendFollowUpRequest \<Rightarrow> campaign_row \<Rightarrow> admin_row \<Rightarrow> uuid \<Rightarrow>
   run_state \<Rightarrow> VisitorData \<Rightarrow> run_state" where
  "process_visitor env req campaign admin cid st visitor =
     send_sms_step env req campaign admin cid visitor
       (send_email_step env req campaign admin cid visitor st)"

text \<open>
  The visitors of the run: the resolver's rows, narrowed by \<^verbatim>\<open>.in('visitor_id', visitorIds)\<close>
  when \<^verbatim>\<open>visitorIds\<close> is given and not empty.
\<close>

definition has_visitorIds :: "SendFollowUpRequest \<Rightarrow> bool" where
  "has_visitorIds req = (case visitorIds req of None \<Rightarrow> False | Some ids \<Rightarrow> length ids > 0)"

definition run_visitors :: "database \<Rightarrow> SendFollowUpRequest \<Rightarrow> uuid \<Rightarrow> VisitorData list" where
  "run_visitors db req cid =
     (if has_visitorIds req
      then filter (\<lambda>r. visitor_id r \<in> set (case visitorIds req of None \<Rightarrow> [] | Some ids \<Rightarrow> ids))
             (get_eligible_visitors db cid (propertyId req))
      else get_eligible_visitors db cid (propertyId req))"

definition initial_state :: "database \<Rightarrow> run_state" where
  "initial_state db =
     \<lparr>st_db = db, st_results = \<lparr>sent = 0, failed = 0, errors = []\<rparr>, st_outbox = []\<rparr>"

text \<open>
  The request handler, from the parsed body of the request on. It returns the
  response, the store as the run leaves it and the provider calls it made. Every
  \<^verbatim>\<open>throw\<close> of the source is caught by the handler itself and answered with
  \<open>Failure\<close>; nothing is thrown once the loop has started.
\<close>

definition serve ::
  "environment \<Rightarrow> database \<Rightarrow> string \<Rightarrow> SendFollowUpRequest \<Rightarrow>
   response \<times> database \<times> message list" where
  "serve env db meth req =
     (if meth = ''OPTIONS'' then (Preflight, db, [])
      else if \<not> truthy (campaignId req) then (Failure ''Campaign ID is required'', db, [])
      else
        (let cid = js_string (campaignId req) in
         case (if campaign_query_error env then None
               else single (filter (\<lambda>c. c_id c = cid) (follow_up_campaigns db))) of
           None \<Rightarrow> (Failure ''Campaign not found'', db, [])
         | Some campaign \<Rightarrow>
          (case (if admin_query_error env then None
                 else single (filter (\<lambda>a. Some (a_id a) = c_admin_id campaign) (admins db))) of
             None \<Rightarrow> (Failure ''Admin not found'', db, [])
           | Some admin \<Rightarrow>
            (case rpc_error env of
               Some msg \<Rightarrow> (Failure msg, db, [])
             | None \<Rightarrow>
                (let visitors = run_visitors db req cid in
                 if length visitors = 0 then (NoEligibleVisitors, db, [])
                 else
                   (let st = foldl (process_visitor env req campaign admin cid)
                               (initial_state db) visitors
                    in (Processed (sent (st_results st)) (failed (st_results st))
                          (errors (st_results st)) (length visitors),
                        st_db st, st_outbox st)))))))"

text \<open>
  Before its first check the handler creates the client of the store and reads the
  body with \<^verbatim>\<open>await req.json()\<close>. Either can throw (no address of the store configured, a
  body that is not JSON, the JSON value null); the handler catches the error like any
  other and answers with its message. \<open>Thrown msg\<close> is such an error, \<open>Parsed req\<close>
  a body of the shape of \<^verbatim>\<open>SendFollowUpRequest\<close>.
\<close>

datatype incoming = Parsed SendFollowUpRequest | Thrown string

definition serve_incoming ::
  "environment \<Rightarrow> database \<Rightarrow> string \<Rightarrow> incoming \<Rightarrow>
   response \<times> database \<times> message list" where
  "serve_incoming env db meth inc =
     (if meth = ''OPTIONS'' then (Preflight, db, [])
      else (case inc of
              Thrown msg \<Rightarrow> (Failure msg, db, [])
            | Parsed req \<Rightarrow> serve env db meth req))"

section \<open>The vocabulary of the properties\<close>

text \<open>The campaign with this id, the id being the primary key of its table.\<close>

definition the_campaign :: "database \<Rightarrow> uuid \<Rightarrow> campaign_row \<Rightarrow> bool" where
  "the_campaign db cid c = (filter (\<lambda>c'. c_id c' = cid) (follow_up_campaigns db) = [c])"

text \<open>Property scope: the property filter of the call and the campaign's own property.\<close>

definition in_scope :: "uuid option \<Rightarrow> campaign_row \<Rightarrow> visitor_row \<Rightarrow> bool" where
  "in_scope pp c v =
     ((pp = None \<or> v_property_id v = pp) \<and>
      (c_property_id c = None \<or> v_property_id v = c_property_id c))"

definition has_feedback_row :: "database \<Rightarrow> visitor_row \<Rightarrow> bool" where
  "has_feedback_row db v = (\<exists>f\<in>set (feedback db). f_visitor_id f = Some (v_id v))"

definition has_interested_feedback :: "database \<Rightarrow> visitor_row \<Rightarrow> bool" where
  "has_interested_feedback db v =
     (\<exists>f\<in>set (feedback db). f_visitor_id f = Some (v_id v) \<and> f_interested f = Some True)"

definition trigger_ok :: "campaign_row \<Rightarrow> database \<Rightarrow> visitor_row \<Rightarrow> bool" where
  "trigger_ok c db v =
     (if c_trigger_condition c = ''interested'' then has_interested_feedback db v
      else if c_trigger_condition c = ''no_feedback'' then \<not> has_feedback_row db v
      else c_trigger_condition c = ''all'' \<or> c_trigger_condition c = ''manual'')"

text \<open>
  An unsubscribe entry of type email or both carries this email address, or one of
  type sms or both carries this phone number.
\<close>

definition unsubscribed :: "database \<Rightarrow> string option \<Rightarrow> string option \<Rightarrow> bool" where
  "unsubscribed db email phone =
     (\<exists>u\<in>set (unsubscribes db).
        (email \<noteq> None \<and> u_email u = email \<and>
           (u_unsubscribe_type u = ''email'' \<or> u_unsubscribe_type u = ''both'')) \<or>
        (phone \<noteq> None \<and> u_phone u = phone \<and>
           (u_unsubscribe_type u = ''sms'' \<or> u_unsubscribe_type u = ''both'')))"

text \<open>A Delivery Log entry of this visitor and campaign whose status is not failed.\<close>

definition non_failed :: "uuid \<Rightarrow> uuid \<Rightarrow> follow_up_log \<Rightarrow> bool" where
  "non_failed cid vid fl =
     (lg_visitor_id fl = vid \<and> lg_campaign_id fl = Some cid \<and>
      (case lg_status fl of None \<Rightarrow> False | Some s \<Rightarrow> s \<noteq> ''failed''))"

definition has_non_failed_log :: "database \<Rightarrow> uuid \<Rightarrow> uuid \<Rightarrow> bool" where
  "has_non_failed_log db cid vid = (\<exists>fl\<in>set (follow_up_logs db). non_failed cid vid fl)"

definition eligible_visitor ::
  "database \<Rightarrow> uuid \<Rightarrow> uuid option \<Rightarrow> campaign_row \<Rightarrow> visitor_row \<Rightarrow> bool" where
  "eligible_visitor db cid pp c v =
     (in_scope pp c v \<and> trigger_ok c db v \<and>
      \<not> unsubscribed db (v_email v) (v_phone v) \<and>
      \<not> has_non_failed_log db cid (v_id v))"

definition eligible_ids :: "database \<Rightarrow> uuid \<Rightarrow> uuid option \<Rightarrow> uuid set" where
  "eligible_ids db cid pp = visitor_id ` set (get_eligible_visitors db cid pp)"

definition requires_email :: "string \<Rightarrow> bool" where
  "requires_email mt = (mt = ''email'' \<or> mt = ''both'')"

definition requires_sms :: "string \<Rightarrow> bool" where
  "requires_sms mt = (mt = ''sms'' \<or> mt = ''both'')"

text \<open>
  The entries that the loop body leaves in the log for one row of the resolver: the
  entry of the email branch when that branch is taken and the store accepts the entry,
  then the one of the sms branch in the same way.
\<close>

definition row_entries ::
  "environment \<Rightarrow> database \<Rightarrow> SendFollowUpRequest \<Rightarrow> campaign_row \<Rightarrow> admin_row \<Rightarrow> uuid \<Rightarrow>
   VisitorData \<Rightarrow> follow_up_log list" where
  "row_entries env db req c a cid r =
     (if requires_email (effectiveMessageType req c) \<and> truthy (visitor_email r) \<and>
         \<not> insert_error env (email_log_entry env db c a cid r)
      then [email_log_entry env db c a cid r] else []) @
     (if requires_sms (effectiveMessageType req c) \<and> truthy (visitor_phone r) \<and>
         truthy (c_sms_template c) \<and> \<not> insert_error env (sms_log_entry env db c a cid r)
      then [sms_log_entry env db c a cid r] else [])"

text \<open>The rows of a run that belong to one visitor, and the new entries of that visitor.\<close>

definition rows_of :: "uuid \<Rightarrow> VisitorData list \<Rightarrow> VisitorData list" where
  "rows_of vid rs = filter (\<lambda>r. visitor_id r = vid) rs"

definition entries_of :: "uuid \<Rightarrow> follow_up_log list \<Rightarrow> follow_up_log list" where
  "entries_of vid es = filter (\<lambda>e. lg_visitor_id e = vid) es"

text \<open>How a visitor's row is paired with the rows of the joined tables.\<close>

definition feedback_match :: "database \<Rightarrow> visitor_row \<Rightarrow> feedback_row option \<Rightarrow> bool" where
  "feedback_match db v f =
     (case f of None \<Rightarrow> \<not> has_feedback_row db v
      | Some t \<Rightarrow> t \<in> set (feedback db) \<and> f_visitor_id t = Some (v_id v))"

definition property_match :: "database \<Rightarrow> visitor_row \<Rightarrow> property_row option \<Rightarrow> bool" where
  "property_match db v p =
     (case p of None \<Rightarrow> \<forall>t\<in>set (properties db). v_property_id v \<noteq> Some (p_id t)
      | Some t \<Rightarrow> t \<in> set (properties db) \<and> v_property_id v = Some (p_id t))"

definition campaign_match :: "database \<Rightarrow> uuid \<Rightarrow> campaign_row option \<Rightarrow> bool" where
  "campaign_match db cid c =
     (case c of None \<Rightarrow> \<forall>t\<in>set (follow_up_campaigns db). c_id t \<noteq> cid
      | Some t \<Rightarrow> t \<in> set (follow_up_campaigns db) \<and> c_id t = cid)"

text \<open>
  The run reaches the resolver: the request names a campaign, the campaign and its
  admin are found, and no request to the store fails.
\<close>

definition serve_ready ::
  "environment \<Rightarrow> database \<Rightarrow> SendFollowUpRequest \<Rightarrow> campaign_row \<Rightarrow> admin_row \<Rightarrow> bool" where
  "serve_ready env db req c a =
     (truthy (campaignId req) \<and> \<not> campaign_query_error env \<and>
      the_campaign db (js_string (campaignId req)) c \<and>
      \<not> admin_query_error env \<and>
      filter (\<lambda>a'. Some (a_id a') = c_admin_id c) (admins db) = [a] \<and>
      rpc_error env = None)"

text \<open>The Delivery Log entries a run adds to the store.\<close>

definition new_log_entries :: "database \<Rightarrow> database \<Rightarrow> follow_up_log list" where
  "new_log_entries db db' = drop (length (follow_up_logs db)) (follow_up_logs db')"

definition same_tables :: "database \<Rightarrow> database \<Rightarrow> bool" where
  "same_tables db db' = (db' = db\<lparr>follow_up_logs := follow_up_logs db'\<rparr>)"

definition counted :: "run_state \<Rightarrow> nat" where
  "counted st = sent (st_results st) + failed (st_results st)"

text \<open>
  What the loop may do between two of its states while it handles the visitors \<open>V\<close>:
  it appends accepted entries of these visitors for this campaign to the log, touches
  no other table, appends to the provider calls, and counts each call once.
\<close>

definition good_entry :: "environment \<Rightarrow> uuid \<Rightarrow> uuid set \<Rightarrow> follow_up_log \<Rightarrow> bool" where
  "good_entry env cid V e =
     (lg_visitor_id e \<in> V \<and> lg_campaign_id e = Some cid \<and> \<not> insert_error env e \<and>
      (lg_status e = Some ''sent'' \<or> lg_status e = Some ''failed'') \<and>
      (lg_message_type e = ''email'' \<or> lg_message_type e = ''sms''))"

definition step_ok :: "environment \<Rightarrow> uuid \<Rightarrow> uuid set \<Rightarrow> run_state \<Rightarrow> run_state \<Rightarrow> bool" where
  "step_ok env cid V st st' =
     (same_tables (st_db st) (st_db st') \<and>
      (\<exists>new. follow_up_logs (st_db st') = follow_up_logs (st_db st) @ new \<and>
             (\<forall>e\<in>set new. good_entry env cid V e)) \<and>
      prefix (st_outbox st) (st_outbox st') \<and>
      counted st' - counted st = length (st_outbox st') - length (st_outbox st) \<and>
      counted st \<le> counted st')"

section \<open>Sample data\<close>

text \<open>
  Two visitors of one property, Jane without a phone number; an email campaign for
  all visitors, owned by one admin; providers that accept every message.
\<close>

definition jane_id :: uuid where "jane_id = ''aaaaaaaa-0000-4000-8000-000000000001''"
definition bob_id :: uuid where "bob_id = ''bbbbbbbb-0000-4000-8000-000000000002''"
definition camp_id :: uuid where "camp_id = ''cccccccc-0000-4000-8000-000000000003''"
definition ann_id :: uuid where "ann_id = ''dddddddd-0000-4000-8000-000000000004''"
definition maple_id :: uuid where "maple_id = ''eeeeeeee-0000-4000-8000-000000000005''"

definition jane :: visitor_row where
  "jane = \<lparr>v_id = jane_id, v_name = ''Jane'', v_email = Some ''jane@example.com'',
           v_phone = Some [], v_visit_date = Some ''2024-05-01T10:00:00Z'',
           v_property_id = Some maple_id\<rparr>"

definition bob :: visitor_row where
  "bob = \<lparr>v_id = bob_id, v_name = ''Bob'', v_email = Some ''bob@example.com'',
          v_phone = Some ''5550100200'', v_visit_date = Some ''2024-05-01T11:00:00Z'',
          v_property_id = Some maple_id\<rparr>"

definition maple :: property_row where
  "maple = \<lparr>p_id = maple_id, p_name = ''Maple House'', p_address = ''1 Maple St''\<rparr>"

definition ann :: admin_row where
  "ann = \<lparr>a_id = ann_id, a_name = Some ''Ann'', a_email = Some ''ann@example.com'',
          a_phone = None\<rparr>"

definition camp :: campaign_row where
  "camp = \<lparr>c_id = camp_id, c_property_id = None, c_admin_id = Some ann_id,
           c_message_type = ''email'', c_trigger_condition = ''all'',
           c_email_subject = Some ''Hi {{visitor_name}}'',
           c_email_template = Some ''<p>Thanks, {{visitor_name}}</p>'',
           c_email_from_name = None, c_sms_template = None\<rparr>"

definition store :: "campaign_row \<Rightarrow> database" where
  "store c = \<lparr>visitors = [jane, bob], properties = [maple], feedback = [],
              follow_up_campaigns = [c], admins = [ann], unsubscribes = [],
              follow_up_logs = []\<rparr>"

definition send_ok :: send_result where
  "send_ok = \<lparr>success = True, messageId = Some ''msg-1'', error = None\<rparr>"

definition env_ok :: environment where
  "env_ok = \<lparr>sendEmail = (\<lambda>to subject html text from_name. send_ok),
             sendSMS = (\<lambda>to body. send_ok),
             campaign_query_error = False, admin_query_error = False,
             rpc_error = None, visitor_query_error = False,
             insert_error = (\<lambda>entry. False)\<rparr>"

definition request :: "string list option \<Rightarrow> SendFollowUpRequest" where
  "request ids = \<lparr>campaignId = Some camp_id, visitorIds = ids, propertyId = None,
                  messageType = None\<rparr>"

definition log_of :: "uuid \<Rightarrow> string \<Rightarrow> follow_up_log" where
  "log_of vid status =
     \<lparr>lg_visitor_id = vid, lg_campaign_id = Some camp_id, lg_property_id = Some maple_id,
      lg_admin_id = Some ann_id, lg_message_type = ''email'',
      lg_recipient_email = Some ''x@example.com'', lg_recipient_phone = None,
      lg_subject = Some ''Hi'', lg_message_content = ''Hi'', lg_status = Some status,
      lg_external_id = None, lg_error_message = None\<rparr>"

definition email_unsubscribe :: "string \<Rightarrow> unsubscribe_row" where
  "email_unsubscribe addr =
     \<lparr>u_id = ''ffffffff-0000-4000-8000-000000000006'', u_email = Some addr,
      u_phone = None, u_unsubscribe_type = ''email''\<rparr>"

definition jane_feedback :: feedback_row where
  "jane_feedback = \<lparr>f_id = ''99999999-0000-4000-8000-000000000007'',
                    f_visitor_id = Some jane_id, f_interested = Some True\<rparr>"

text \<open>A store that rejects every Delivery Log entry of Jane.\<close>

definition env_log_down :: environment where
  "env_log_down = env_ok\<lparr>insert_error := (\<lambda>entry. lg_visitor_id entry = jane_id)\<rparr>"

text \<open>The resolver's row for Jane, and the campaign on both channels.\<close>

definition jane_row :: VisitorData where
  "jane_row = \<lparr>visitor_id = jane_id, visitor_name = ''Jane'',
               visitor_email = Some ''jane@example.com'', visitor_phone = Some [],
               property_id = Some maple_id, property_name = Some ''Maple House'',
               property_address = Some ''1 Maple St'',
               visit_date = Some ''2024-05-01T10:00:00Z'',
               interested = False, has_feedback = False\<rparr>"

definition both_camp :: campaign_row where
  "both_camp = camp\<lparr>c_message_type := ''both'', c_sms_template := Some ''Hi {{visitor_name}}''\<rparr>"

text \<open>A second feedback record of Jane; the table allows any number per visitor.\<close>

definition jane_feedback_again :: feedback_row where
  "jane_feedback_again = \<lparr>f_id = ''88888888-0000-4000-8000-000000000008'',
                          f_visitor_id = Some jane_id, f_interested = Some False\<rparr>"

text \<open>The resolver's row for Bob, and a store that rejects every entry of channel email.\<close>

definition bob_row :: VisitorData where
  "bob_row = \<lparr>visitor_id = bob_id, visitor_name = ''Bob'',
              visitor_email = Some ''bob@example.com'', visitor_phone = Some ''5550100200'',
              property_id = Some maple_id, property_name = Some ''Maple House'',
              property_address = Some ''1 Maple St'',
              visit_date = Some ''2024-05-01T11:00:00Z'',
              interested = False, has_feedback = False\<rparr>"


section \<open>One pass of the renderer over a template\<close>

lemma word_chars_no_brace:
  "CHR ''{'' \<notin> set word_chars" "CHR ''}'' \<notin> set word_chars"
  by (simp_all add: word_chars_def)

lemma plain_key_brace_free: "plain_key k \<Longrightarrow> brace_free k"
  using word_chars_no_brace by (auto simp: plain_key_def brace_free_def list_all_iff)

lemma get_substitution_plain:
  "CHR ''$'' \<notin> set v \<Longrightarrow> get_substitution m b a v = v"
  by (induction m b a v rule: get_substitution.induct) auto

lemma scan_placeholder_match:
  assumes "prefix (placeholder k) s"
  shows "scan_placeholder k v b s =
    get_substitution (placeholder k) b (drop (length (placeholder k)) s) v
    @ scan_placeholder k v (b @ placeholder k) (drop (length (placeholder k)) s)"
proof (cases s)
  case Nil
  with assms show ?thesis by (simp add: placeholder_def)
next
  case (Cons c cs)
  with assms show ?thesis by simp
qed

text \<open>Text without an opening brace is copied.\<close>

lemma scan_placeholder_skip:
  "CHR ''{'' \<notin> set s \<Longrightarrow>
   scan_placeholder k v b (s @ rest) = s @ scan_placeholder k v (b @ s) rest"
proof (induction s arbitrary: b)
  case Nil
  then show ?case by simp
next
  case (Cons c s)
  then have "\<not> prefix (placeholder k) ((c # s) @ rest)"
    by (auto simp: placeholder_def)
  with Cons show ?case by simp
qed

lemma prefix_key_close:
  "brace_free k \<Longrightarrow> brace_free n \<Longrightarrow> prefix (k @ ''}}'') (n @ ''}}'' @ rest) \<Longrightarrow> k = n"
proof (induction k arbitrary: n)
  case Nil
  then show ?case by (cases n) (auto simp: brace_free_def)
next
  case (Cons a k)
  then show ?case by (cases n) (auto simp: brace_free_def)
qed

text \<open>The placeholder of another name is copied.\<close>

lemma scan_placeholder_other:
  assumes "brace_free k" "brace_free n" "n \<noteq> k"
  shows "scan_placeholder k v b (placeholder n @ rest) =
         placeholder n @ scan_placeholder k v (b @ placeholder n) rest"
proof -
  have a: "\<not> prefix (placeholder k) (placeholder n @ rest)"
    using assms prefix_key_close[of k n rest] by (auto simp: placeholder_def)
  have b: "\<not> prefix (placeholder k) (CHR ''{'' # n @ ''}}'' @ rest)"
    using assms by (cases n) (auto simp: placeholder_def brace_free_def)
  have c: "CHR ''{'' \<notin> set (n @ ''}}'')"
    using assms by (auto simp: brace_free_def)
  have "scan_placeholder k v b (placeholder n @ rest) =
        CHR ''{'' # CHR ''{'' # scan_placeholder k v (b @ ''{{'') ((n @ ''}}'') @ rest)"
    using a b by (simp add: placeholder_def)
  also have "\<dots> = CHR ''{'' # CHR ''{'' # (n @ ''}}'')
                 @ scan_placeholder k v ((b @ ''{{'') @ n @ ''}}'') rest"
    using scan_placeholder_skip[OF c] by simp
  finally show ?thesis by (simp add: placeholder_def)
qed

lemma scan_placeholder_flatten:
  assumes "well_formed segs" "brace_free k" "CHR ''$'' \<notin> set v"
  shows "scan_placeholder k v b (flatten segs) = flatten (map (subst1 k v) segs)"
  using assms(1)
proof (induction segs arbitrary: b)
  case Nil
  then show ?case by simp
next
  case (Cons seg segs)
  then have wf: "well_formed segs" and bf: "brace_free (seg_text seg)"
    by (simp_all add: well_formed_def)
  show ?case
  proof (cases seg)
    case (Lit s)
    with bf have "CHR ''{'' \<notin> set s" by (simp add: brace_free_def)
    then show ?thesis using Lit Cons.IH[OF wf] by (simp add: scan_placeholder_skip)
  next
    case (Var n)
    show ?thesis
    proof (cases "n = k")
      case True
      then show ?thesis
        using Var Cons.IH[OF wf] assms(3)
        by (simp add: scan_placeholder_match get_substitution_plain)
    next
      case False
      then show ?thesis
        using Var Cons.IH[OF wf] bf assms(2)
        by (simp add: scan_placeholder_other)
    qed
  qed
qed

text \<open>For a plain key the replacement is the scan.\<close>

lemma replace_global_plain:
  "plain_key k \<Longrightarrow> replace_global k v b s = scan_placeholder k v b s"
  by (simp add: replace_global_def)

lemma seg_text_subst1:
  "brace_free v \<Longrightarrow> brace_free (seg_text x) \<Longrightarrow> brace_free (seg_text (subst1 k v x))"
  by (cases x) auto

lemma well_formed_subst1:
  "well_formed segs \<Longrightarrow> brace_free v \<Longrightarrow> well_formed (map (subst1 k v) segs)"
  by (auto simp: well_formed_def list_all_iff seg_text_subst1)

lemma expand_seg_Cons:
  "expand_seg m (subst1 k (or_empty v) seg) = expand_seg ((k, v) # m) seg"
  by (cases seg) auto

lemma expand_seg_Nil: "map (expand_seg []) segs = segs"
proof (induction segs)
  case Nil
  then show ?case by simp
next
  case (Cons s ss)
  then show ?case by (cases s) auto
qed

text \<open>
  On a well-formed template and a plain mapping the loop over the entries comes to one
  substitution of every segment.
\<close>

lemma render_well_formed:
  "well_formed segs \<Longrightarrow> plain_mapping m \<Longrightarrow>
   replaceTemplateVariables (flatten segs) m = flatten (map (expand_seg m) segs)"
proof (induction m arbitrary: segs)
  case Nil
  then show ?case by (simp add: expand_seg_Nil)
next
  case (Cons kv m)
  obtain k v where kv: "kv = (k, v)" by (cases kv)
  from Cons.prems kv have pk: "plain_key k" and pv: "plain_value (or_empty v)"
    and pm: "plain_mapping m"
    by (simp_all add: plain_mapping_def)
  have wf': "well_formed (map (subst1 k (or_empty v)) segs)"
    using Cons.prems(1) pv by (simp add: well_formed_subst1 plain_value_def)
  have "replace_global k (or_empty v) [] (flatten segs) =
        flatten (map (subst1 k (or_empty v)) segs)"
    using Cons.prems(1) pk pv
    by (simp add: replace_global_plain scan_placeholder_flatten plain_key_brace_free
        plain_value_def)
  then show ?case
    using Cons.IH[OF wf' pm] kv by (simp add: expand_seg_Cons comp_def)
qed

lemma seg_text_expand:
  assumes "plain_mapping m" "brace_free (seg_text x)"
  shows "brace_free (seg_text (expand_seg m x))"
proof (cases x)
  case (Lit s)
  with assms show ?thesis by simp
next
  case (Var n)
  show ?thesis
  proof (cases "map_of m n")
    case None
    with assms Var show ?thesis by simp
  next
    case (Some v)
    then have "(n, v) \<in> set m" by (rule map_of_SomeD)
    with assms(1) have "plain_value (or_empty v)"
      by (auto simp: plain_mapping_def list_all_iff)
    with Some Var show ?thesis by (simp add: plain_value_def)
  qed
qed

lemma well_formed_expand:
  "well_formed segs \<Longrightarrow> plain_mapping m \<Longrightarrow> well_formed (map (expand_seg m) segs)"
  by (auto simp: well_formed_def list_all_iff seg_text_expand)

lemma expand_seg_idem: "expand_seg m (expand_seg m seg) = expand_seg m seg"
  by (cases seg) (auto split: option.splits)

text \<open>A template that does not contain the placeholder of a key is left as it is.\<close>

lemma no_occurrence: "\<not> sublist (placeholder k) s \<Longrightarrow> scan_placeholder k v b s = s"
proof (induction s arbitrary: b)
  case Nil
  then show ?case by simp
next
  case (Cons c cs)
  from Cons.prems have np: "\<not> prefix (placeholder k) (c # cs)"
    and ns: "\<not> sublist (placeholder k) cs"
    by (simp_all add: sublist_Cons_right)
  have "scan_placeholder k v b (c # cs) = c # scan_placeholder k v (b @ [c]) cs"
    using np by (simp only: scan_placeholder.simps if_False)
  then show ?case
    using Cons.IH[OF ns] by simp
qed

lemma no_occurrences:
  "plain_keys m \<Longrightarrow> \<forall>kv\<in>set m. \<not> sublist (placeholder (fst kv)) template \<Longrightarrow>
   replaceTemplateVariables template m = template"
proof (induction m)
  case Nil
  then show ?case by simp
next
  case (Cons kv m)
  obtain k v where kv: "kv = (k, v)" by (cases kv)
  with Cons.prems have pk: "plain_key k" and pm: "plain_keys m"
    by (simp_all add: plain_keys_def)
  from kv Cons.prems have "\<not> sublist (placeholder k) template" by simp
  then have "scan_placeholder k (or_empty v) [] template = template"
    by (rule no_occurrence)
  then have "replace_global k (or_empty v) [] template = template"
    using pk by (simp add: replace_global_plain)
  with Cons pm kv show ?case by simp
qed

lemma render_empty_template: "plain_keys m \<Longrightarrow> replaceTemplateVariables [] m = []"
proof (induction m)
  case Nil
  then show ?case by simp
next
  case (Cons kv m)
  obtain k v where kv: "kv = (k, v)" by (cases kv)
  with Cons.prems have pk: "plain_key k" and pm: "plain_keys m"
    by (simp_all add: plain_keys_def)
  have "replace_global k (or_empty v) [] [] = []"
    using pk by (simp add: replace_global_plain)
  with Cons.IH[OF pm] kv show ?case by simp
qed

text \<open>The six keys of the mapping built in the loop are plain.\<close>

lemma templateVariables_plain: "plain_keys (templateVariables visitor admin)"
  by (simp add: templateVariables_def plain_keys_def plain_key_def word_chars_def)

lemma plain_mapping_keys: "plain_mapping m \<Longrightarrow> plain_keys m"
  by (auto simp: plain_mapping_def plain_keys_def list_all_iff)

section \<open>The resolver's query, read as a set of visitors\<close>

lemma is_true_simps:
  "is_true (Some t) = t"
  "is_true None = False"
  "is_true (sql_and a b) = (is_true a \<and> is_true b)"
  "is_true (sql_or a b) = (is_true a \<or> is_true b)"
  by (auto simp: is_true_def sql_and_def sql_or_def)

lemma is_true_sql_eq: "is_true (sql_eq a b) = (a \<noteq> None \<and> a = b)"
  by (auto simp: is_true_def sql_eq_def split: option.splits)

lemma is_true_sql_in: "is_true (sql_in a ls) = (\<exists>x. a = Some x \<and> x \<in> set ls)"
  by (cases a) (auto simp: is_true_def sql_in_def)

lemma is_true_not_in_failed:
  "is_true (sql_not (sql_in a [''failed''])) = (case a of None \<Rightarrow> False | Some s \<Rightarrow> s \<noteq> ''failed'')"
  by (cases a) (auto simp: is_true_def sql_in_def sql_not_def)

lemma set_left_join:
  "(r, x) \<in> set (left_join rows tbl cond) \<longleftrightarrow>
     r \<in> set rows \<and>
     (case x of None \<Rightarrow> \<forall>t\<in>set tbl. \<not> is_true (cond r t)
              | Some t \<Rightarrow> t \<in> set tbl \<and> is_true (cond r t))"
proof -
  have one: "\<And>r'. (r, x) \<in> set (case filter (\<lambda>t. is_true (cond r' t)) tbl of
                         [] \<Rightarrow> [(r', None)]
                       | ms \<Rightarrow> map (\<lambda>t. (r', Some t)) ms) \<longleftrightarrow>
         r = r' \<and> (case x of None \<Rightarrow> \<forall>t\<in>set tbl. \<not> is_true (cond r t)
              | Some t \<Rightarrow> t \<in> set tbl \<and> is_true (cond r t))"
  proof -
    fix r'
    show "?thesis r'"
    proof (cases "filter (\<lambda>t. is_true (cond r' t)) tbl")
      case Nil
      then have "\<forall>t\<in>set tbl. \<not> is_true (cond r' t)" by (simp add: filter_empty_conv)
      with Nil show ?thesis by (cases x) auto
    next
      case (Cons a ms)
      then have ne: "\<exists>t\<in>set tbl. is_true (cond r' t)"
        by (metis filter_empty_conv list.distinct(1))
      have "set (filter (\<lambda>t. is_true (cond r' t)) tbl) = {t \<in> set tbl. is_true (cond r' t)}"
        by simp
      with Cons have s: "set (a # ms) = {t \<in> set tbl. is_true (cond r' t)}" by simp
      have "(r, x) \<in> set (map (\<lambda>t. (r', Some t)) (a # ms)) \<longleftrightarrow>
            r = r' \<and> (\<exists>t. x = Some t \<and> t \<in> set tbl \<and> is_true (cond r' t))"
        unfolding set_map s by auto
      with Cons ne show ?thesis by (cases x) auto
    qed
  qed
  show ?thesis
    unfolding left_join_def set_concat set_map using one by auto
qed

lemma already_sent_rows_empty:
  "already_sent_rows db cid v = [] \<longleftrightarrow> \<not> has_non_failed_log db cid (v_id v)"
  by (auto simp: already_sent_rows_def has_non_failed_log_def non_failed_def filter_empty_conv
      is_true_simps is_true_sql_eq is_true_not_in_failed)

lemma unsubscribe_on_true:
  "is_true (unsubscribe_on v u) \<longleftrightarrow>
     (v_email v \<noteq> None \<and> u_email u = v_email v \<and>
        (u_unsubscribe_type u = ''email'' \<or> u_unsubscribe_type u = ''both'')) \<or>
     (v_phone v \<noteq> None \<and> u_phone u = v_phone v \<and>
        (u_unsubscribe_type u = ''sms'' \<or> u_unsubscribe_type u = ''both''))"
  by (auto simp: unsubscribe_on_def is_true_simps is_true_sql_eq is_true_sql_in)

lemma no_unsubscribe_match:
  "(\<forall>u\<in>set (unsubscribes db). \<not> is_true (unsubscribe_on v u)) \<longleftrightarrow>
     \<not> unsubscribed db (v_email v) (v_phone v)"
  by (simp add: unsubscribed_def unsubscribe_on_true)

lemma joined_rows_iff:
  "((((v, p), f), c), u) \<in> set (joined_rows db cid) \<longleftrightarrow>
     v \<in> set (visitors db) \<and> property_match db v p \<and> feedback_match db v f \<and>
     campaign_match db cid c \<and>
     (case u of None \<Rightarrow> \<not> unsubscribed db (v_email v) (v_phone v)
      | Some t \<Rightarrow> t \<in> set (unsubscribes db) \<and> is_true (unsubscribe_on v t))"
  unfolding joined_rows_def set_left_join
  by (auto simp: is_true_sql_eq property_match_def feedback_match_def campaign_match_def
      has_feedback_row_def no_unsubscribe_match split: option.splits)

lemma where_clause_true:
  "is_true (where_clause db cid pp ((((v, p), f), c), u)) \<longleftrightarrow>
     (pp = None \<or> v_property_id v = pp) \<and>
     (ncol c_property_id c = None \<or> v_property_id v = ncol c_property_id c) \<and>
     u = None \<and> is_true (trigger_case c f) \<and> \<not> has_non_failed_log db cid (v_id v)"
  by (auto simp: where_clause_def is_true_simps is_true_sql_eq already_sent_rows_empty col_def)

lemma trigger_case_None: "\<not> is_true (trigger_case None f)"
  by (simp add: trigger_case_def col_def is_true_simps is_true_sql_eq)

lemma trigger_case_Some:
  "is_true (trigger_case (Some c) f) \<longleftrightarrow>
     (if c_trigger_condition c = ''interested''
        then (\<exists>t. f = Some t \<and> f_interested t = Some True)
      else if c_trigger_condition c = ''no_feedback'' then f = None
      else c_trigger_condition c = ''all'' \<or> c_trigger_condition c = ''manual'')"
  by (auto simp: trigger_case_def col_def ncol_def coalesce_def is_true_simps is_true_sql_eq
      split: option.splits)

lemma feedback_match_exists: "\<exists>f. feedback_match db v f"
proof (cases "has_feedback_row db v")
  case True
  then obtain t where "t \<in> set (feedback db)" "f_visitor_id t = Some (v_id v)"
    by (auto simp: has_feedback_row_def)
  then have "feedback_match db v (Some t)" by (simp add: feedback_match_def)
  then show ?thesis ..
next
  case False
  then have "feedback_match db v None" by (simp add: feedback_match_def)
  then show ?thesis ..
qed

lemma property_match_exists: "\<exists>p. property_match db v p"
proof (cases "\<exists>t\<in>set (properties db). v_property_id v = Some (p_id t)")
  case True
  then obtain t where "t \<in> set (properties db)" "v_property_id v = Some (p_id t)" by auto
  then have "property_match db v (Some t)" by (simp add: property_match_def)
  then show ?thesis ..
next
  case False
  then have "property_match db v None" by (simp add: property_match_def)
  then show ?thesis ..
qed

lemma trigger_ok_iff:
  "(\<exists>f. feedback_match db v f \<and> is_true (trigger_case (Some c) f)) \<longleftrightarrow> trigger_ok c db v"
proof (cases "c_trigger_condition c = ''interested''")
  case True
  have "(\<exists>f. feedback_match db v f \<and> (\<exists>t. f = Some t \<and> f_interested t = Some True)) \<longleftrightarrow>
        has_interested_feedback db v"
    (is "?A \<longleftrightarrow> ?B")
  proof
    assume ?A
    then show ?B by (auto simp: feedback_match_def has_interested_feedback_def)
  next
    assume ?B
    then obtain t where t: "t \<in> set (feedback db)" "f_visitor_id t = Some (v_id v)"
        "f_interested t = Some True"
      by (auto simp: has_interested_feedback_def)
    then have "feedback_match db v (Some t)" by (simp add: feedback_match_def)
    with t(3) show ?A by blast
  qed
  with True show ?thesis by (simp add: trigger_case_Some trigger_ok_def)
next
  case ni: False
  show ?thesis
  proof (cases "c_trigger_condition c = ''no_feedback''")
    case True
    have "(\<exists>f. feedback_match db v f \<and> f = None) \<longleftrightarrow> \<not> has_feedback_row db v"
      by (simp add: feedback_match_def)
    with True ni show ?thesis by (simp add: trigger_case_Some trigger_ok_def)
  next
    case False
    with ni feedback_match_exists[of db v] show ?thesis
      by (simp add: trigger_case_Some trigger_ok_def)
  qed
qed

lemma the_campaign_match:
  assumes "the_campaign db cid c"
  shows "campaign_match db cid x \<longleftrightarrow> x = Some c"
proof -
  let ?P = "\<lambda>c'. c_id c' = cid"
  from assms have eq: "filter ?P (follow_up_campaigns db) = [c]"
    unfolding the_campaign_def .
  have mem: "t \<in> set (filter ?P (follow_up_campaigns db)) \<longleftrightarrow> t = c" for t
    by (simp only: eq list.set insert_iff empty_iff simp_thms)
  have in_c: "c \<in> set (follow_up_campaigns db) \<and> c_id c = cid"
    using mem[of c] by simp
  have uniq: "t = c" if "t \<in> set (follow_up_campaigns db)" "c_id t = cid" for t
    using mem[of t] that by simp
  show ?thesis
  proof (cases x)
    case None
    with in_c show ?thesis by (auto simp: campaign_match_def)
  next
    case (Some t)
    show ?thesis
    proof
      assume "campaign_match db cid x"
      with Some have "t \<in> set (follow_up_campaigns db)" "c_id t = cid"
        by (simp_all add: campaign_match_def)
      then have "t = c" by (rule uniq)
      with Some show "x = Some c" by simp
    next
      assume "x = Some c"
      with in_c show "campaign_match db cid x" by (simp add: campaign_match_def)
    qed
  qed
qed

lemma eligible_row_iff:
  "r \<in> set (get_eligible_visitors db cid pp) \<longleftrightarrow>
     (\<exists>v p f c. v \<in> set (visitors db) \<and> property_match db v p \<and> feedback_match db v f \<and>
        campaign_match db cid (Some c) \<and> is_true (trigger_case (Some c) f) \<and>
        in_scope pp c v \<and> \<not> unsubscribed db (v_email v) (v_phone v) \<and>
        \<not> has_non_failed_log db cid (v_id v) \<and>
        r = select_row ((((v, p), f), Some c), None))"
  (is "?L \<longleftrightarrow> ?R")
proof
  assume ?L
  then obtain row where row: "row \<in> set (joined_rows db cid)"
      "is_true (where_clause db cid pp row)" "r = select_row row"
    by (auto simp: get_eligible_visitors_def)
  obtain v p f c u where r: "row = ((((v, p), f), c), u)"
    by (metis surj_pair)
  from row(2) r have u: "u = None" and tr: "is_true (trigger_case c f)"
    by (simp_all add: where_clause_true)
  from tr obtain c' where c: "c = Some c'"
    using trigger_case_None by (cases c) auto
  from row r u c show ?R
    by (auto simp: joined_rows_iff where_clause_true in_scope_def ncol_def)
next
  assume ?R
  then obtain v p f c where h: "v \<in> set (visitors db)" "property_match db v p"
      "feedback_match db v f" "campaign_match db cid (Some c)"
      "is_true (trigger_case (Some c) f)" "in_scope pp c v"
      "\<not> unsubscribed db (v_email v) (v_phone v)" "\<not> has_non_failed_log db cid (v_id v)"
      "r = select_row ((((v, p), f), Some c), None)"
    by blast
  let ?row = "((((v, p), f), Some c), None)"
  have "?row \<in> set (joined_rows db cid)"
    using h by (simp add: joined_rows_iff)
  moreover have "is_true (where_clause db cid pp ?row)"
    using h by (simp add: where_clause_true in_scope_def ncol_def)
  ultimately show ?L
    using h(9) by (auto simp: get_eligible_visitors_def)
qed

lemma select_row_contact:
  "visitor_id (select_row ((((v, p), f), c), u)) = v_id v"
  "visitor_email (select_row ((((v, p), f), c), u)) = v_email v"
  "visitor_phone (select_row ((((v, p), f), c), u)) = v_phone v"
  by (simp_all add: select_row_def)

text \<open>Every row the resolver returns is a stored visitor that passes the four filters.\<close>

lemma eligible_row_sound:
  assumes "r \<in> set (get_eligible_visitors db cid pp)"
  shows "\<exists>v c. v \<in> set (visitors db) \<and> c \<in> set (follow_up_campaigns db) \<and> c_id c = cid \<and>
           eligible_visitor db cid pp c v \<and>
           visitor_id r = v_id v \<and> visitor_email r = v_email v \<and> visitor_phone r = v_phone v"
proof -
  from assms obtain v p f c where h: "v \<in> set (visitors db)"
      "feedback_match db v f" "campaign_match db cid (Some c)"
      "is_true (trigger_case (Some c) f)" "in_scope pp c v"
      "\<not> unsubscribed db (v_email v) (v_phone v)" "\<not> has_non_failed_log db cid (v_id v)"
      "r = select_row ((((v, p), f), Some c), None)"
    unfolding eligible_row_iff by blast
  from h(2,4) have "trigger_ok c db v" using trigger_ok_iff by blast
  with h show ?thesis
    by (auto simp: eligible_visitor_def campaign_match_def select_row_contact)
qed

text \<open>Every stored visitor that passes the four filters is returned.\<close>

lemma eligible_row_complete:
  assumes "v \<in> set (visitors db)" "c \<in> set (follow_up_campaigns db)" "c_id c = cid"
    "eligible_visitor db cid pp c v"
  shows "\<exists>r\<in>set (get_eligible_visitors db cid pp).
           visitor_id r = v_id v \<and> visitor_email r = v_email v \<and> visitor_phone r = v_phone v"
proof -
  from assms(4) have t: "trigger_ok c db v" by (simp add: eligible_visitor_def)
  then obtain f where f: "feedback_match db v f" "is_true (trigger_case (Some c) f)"
    using trigger_ok_iff by blast
  obtain p where p: "property_match db v p" using property_match_exists by blast
  let ?r = "select_row ((((v, p), f), Some c), None)"
  have "v \<in> set (visitors db) \<and> property_match db v p \<and> feedback_match db v f \<and>
        campaign_match db cid (Some c) \<and> is_true (trigger_case (Some c) f) \<and>
        in_scope pp c v \<and> \<not> unsubscribed db (v_email v) (v_phone v) \<and>
        \<not> has_non_failed_log db cid (v_id v) \<and> ?r = select_row ((((v, p), f), Some c), None)"
    using assms f p by (simp add: eligible_visitor_def campaign_match_def)
  then have "?r \<in> set (get_eligible_visitors db cid pp)"
    unfolding eligible_row_iff by blast
  then show ?thesis
    by (intro bexI[of _ "?r"]) (simp_all add: select_row_contact)
qed

lemma eligible_ids_eq:
  assumes "the_campaign db cid c"
  shows "eligible_ids db cid pp = v_id ` {v \<in> set (visitors db). eligible_visitor db cid pp c v}"
proof -
  have m: "campaign_match db cid (Some c)"
    using the_campaign_match[OF assms] by simp
  then have c: "c \<in> set (follow_up_campaigns db)" "c_id c = cid"
    by (simp_all add: campaign_match_def)
  have u: "c' = c" if "c' \<in> set (follow_up_campaigns db)" "c_id c' = cid" for c'
  proof -
    from that have "campaign_match db cid (Some c')" by (simp add: campaign_match_def)
    then show ?thesis using the_campaign_match[OF assms] by simp
  qed
  show ?thesis
  proof (intro set_eqI iffI)
    fix i assume "i \<in> eligible_ids db cid pp"
    then obtain r where r: "r \<in> set (get_eligible_visitors db cid pp)" "visitor_id r = i"
      by (auto simp: eligible_ids_def)
    from eligible_row_sound[OF r(1)] obtain v c' where h: "v \<in> set (visitors db)"
        "c' \<in> set (follow_up_campaigns db)" "c_id c' = cid" "eligible_visitor db cid pp c' v"
        "visitor_id r = v_id v"
      by blast
    from u[OF h(2,3)] h r(2)
    show "i \<in> v_id ` {v \<in> set (visitors db). eligible_visitor db cid pp c v}" by blast
  next
    fix i assume "i \<in> v_id ` {v \<in> set (visitors db). eligible_visitor db cid pp c v}"
    then obtain v where v: "v \<in> set (visitors db)" "eligible_visitor db cid pp c v" "v_id v = i"
      by blast
    from eligible_row_complete[OF v(1) c v(2)] v(3) show "i \<in> eligible_ids db cid pp"
      unfolding eligible_ids_def by force
  qed
qed

lemma no_campaign_no_rows:
  assumes "\<forall>c\<in>set (follow_up_campaigns db). c_id c = cid \<longrightarrow>
             c_trigger_condition c \<notin> {''interested'', ''no_feedback'', ''all'', ''manual''}"
  shows "get_eligible_visitors db cid pp = []"
proof (cases "get_eligible_visitors db cid pp")
  case Nil
  then show ?thesis .
next
  case (Cons r rs)
  then have "r \<in> set (get_eligible_visitors db cid pp)" by simp
  then obtain v c where h: "c \<in> set (follow_up_campaigns db)" "c_id c = cid"
      "eligible_visitor db cid pp c v"
    using eligible_row_sound by blast
  from h(3) have "trigger_ok c db v" by (simp add: eligible_visitor_def)
  then have "c_trigger_condition c \<in> {''interested'', ''no_feedback'', ''all'', ''manual''}"
    by (auto simp: trigger_ok_def split: if_splits)
  with assms h(1,2) show ?thesis by blast
qed

section \<open>The loop of the orchestrator\<close>

lemma same_tables_refl: "same_tables db db"
  by (simp add: same_tables_def)

lemma same_tables_logFollowUp: "same_tables db (logFollowUp env db e)"
  by (simp add: same_tables_def logFollowUp_def)

lemma same_tables_trans: "same_tables a b \<Longrightarrow> same_tables b c \<Longrightarrow> same_tables a c"
  by (cases a, cases b, cases c) (simp add: same_tables_def)

lemma logFollowUp_logs:
  "follow_up_logs (logFollowUp env db e) =
     follow_up_logs db @ (if insert_error env e then [] else [e])"
  by (simp add: logFollowUp_def)

lemma counted_count_result:
  "sent (count_result l t res r) + failed (count_result l t res r) = sent r + failed r + 1"
  by (simp add: count_result_def)

lemma send_email_step_skip:
  "\<not> (requires_email (effectiveMessageType req c) \<and> truthy (visitor_email r)) \<Longrightarrow>
   send_email_step env req c a cid r st = st"
  by (auto simp: send_email_step_def requires_email_def)

lemma send_sms_step_skip:
  "\<not> (requires_sms (effectiveMessageType req c) \<and> truthy (visitor_phone r) \<and>
      truthy (c_sms_template c)) \<Longrightarrow>
   send_sms_step env req c a cid r st = st"
  by (auto simp: send_sms_step_def requires_sms_def)

lemma send_email_step_send:
  assumes "requires_email (effectiveMessageType req c)" "truthy (visitor_email r)"
  shows "send_email_step env req c a cid r st =
           \<lparr>st_db = logFollowUp env (st_db st) (email_log_entry env (st_db st) c a cid r),
            st_results = count_result ''Email'' (js_string (visitor_email r))
                           (emailResult env c a r) (st_results st),
            st_outbox = st_outbox st @ [email_message c a r]\<rparr>"
  using assms by (auto simp: send_email_step_def requires_email_def)

lemma send_sms_step_send:
  assumes "requires_sms (effectiveMessageType req c)" "truthy (visitor_phone r)"
    "truthy (c_sms_template c)"
  shows "send_sms_step env req c a cid r st =
           \<lparr>st_db = logFollowUp env (st_db st) (sms_log_entry env (st_db st) c a cid r),
            st_results = count_result ''SMS'' (js_string (visitor_phone r))
                           (smsResult env c a r) (st_results st),
            st_outbox = st_outbox st @ [sms_message c a r]\<rparr>"
  using assms by (auto simp: send_sms_step_def requires_sms_def)

lemma step_ok_refl: "step_ok env cid V st st"
  by (simp add: step_ok_def same_tables_refl)

lemma step_ok_trans:
  assumes "step_ok env cid V a b" "step_ok env cid V b c"
  shows "step_ok env cid V a c"
proof -
  from assms obtain n1 n2 where
    n1: "follow_up_logs (st_db b) = follow_up_logs (st_db a) @ n1" "\<forall>e\<in>set n1. good_entry env cid V e"
    and n2: "follow_up_logs (st_db c) = follow_up_logs (st_db b) @ n2" "\<forall>e\<in>set n2. good_entry env cid V e"
    by (auto simp: step_ok_def)
  have l: "follow_up_logs (st_db c) = follow_up_logs (st_db a) @ (n1 @ n2)"
    using n1 n2 by simp
  have g: "\<forall>e\<in>set (n1 @ n2). good_entry env cid V e"
    using n1 n2 by auto
  from assms have p: "prefix (st_outbox a) (st_outbox b)" "prefix (st_outbox b) (st_outbox c)"
    by (simp_all add: step_ok_def)
  then have le: "length (st_outbox a) \<le> length (st_outbox b)"
       "length (st_outbox b) \<le> length (st_outbox c)"
    by (simp_all add: prefix_length_le)
  from assms have cnt: "counted b - counted a = length (st_outbox b) - length (st_outbox a)"
    "counted c - counted b = length (st_outbox c) - length (st_outbox b)"
    "counted a \<le> counted b" "counted b \<le> counted c"
    by (simp_all add: step_ok_def)
  have "same_tables (st_db a) (st_db c)"
    using assms same_tables_trans by (auto simp: step_ok_def)
  moreover have "prefix (st_outbox a) (st_outbox c)"
    using p by (rule prefix_order.trans)
  moreover have "counted c - counted a = length (st_outbox c) - length (st_outbox a)"
    using cnt le by linarith
  moreover have "counted a \<le> counted c" using cnt by linarith
  ultimately show ?thesis
    unfolding step_ok_def using l g by blast
qed

lemma step_ok_mono: "V \<subseteq> W \<Longrightarrow> step_ok env cid V a b \<Longrightarrow> step_ok env cid W a b"
  unfolding step_ok_def good_entry_def by blast

lemma step_ok_email: "step_ok env cid {visitor_id r} st (send_email_step env req c a cid r st)"
proof (cases "requires_email (effectiveMessageType req c) \<and> truthy (visitor_email r)")
  case False
  then show ?thesis by (simp add: send_email_step_skip step_ok_refl)
next
  case True
  let ?e = "email_log_entry env (st_db st) c a cid r"
  have g: "\<forall>e\<in>set (if insert_error env ?e then [] else [?e]). good_entry env cid {visitor_id r} e"
    by (simp add: good_entry_def email_log_entry_def)
  show ?thesis
    unfolding step_ok_def using True g
    by (simp add: send_email_step_send same_tables_logFollowUp logFollowUp_logs counted_def
        counted_count_result del: if_split split del: if_split)
qed

lemma step_ok_sms: "step_ok env cid {visitor_id r} st (send_sms_step env req c a cid r st)"
proof (cases "requires_sms (effectiveMessageType req c) \<and> truthy (visitor_phone r) \<and>
      truthy (c_sms_template c)")
  case False
  then show ?thesis by (simp add: send_sms_step_skip step_ok_refl)
next
  case True
  let ?e = "sms_log_entry env (st_db st) c a cid r"
  have g: "\<forall>e\<in>set (if insert_error env ?e then [] else [?e]). good_entry env cid {visitor_id r} e"
    by (simp add: good_entry_def sms_log_entry_def)
  show ?thesis
    unfolding step_ok_def using True g
    by (simp add: send_sms_step_send same_tables_logFollowUp logFollowUp_logs counted_def
        counted_count_result del: if_split split del: if_split)
qed

lemma step_ok_process:
  "step_ok env cid {visitor_id r} st (process_visitor env req c a cid st r)"
  unfolding process_visitor_def
  using step_ok_email step_ok_sms by (rule step_ok_trans)

lemma step_ok_foldl:
  "step_ok env cid (visitor_id ` set rs) st (foldl (process_visitor env req c a cid) st rs)"
proof (induction rs arbitrary: st)
  case Nil
  then show ?case by (simp add: step_ok_refl)
next
  case (Cons r rs)
  have a: "step_ok env cid (visitor_id ` set (r # rs)) st (process_visitor env req c a cid st r)"
    using step_ok_process by (rule step_ok_mono[rotated]) simp
  have b: "step_ok env cid (visitor_id ` set (r # rs)) (process_visitor env req c a cid st r)
             (foldl (process_visitor env req c a cid) (process_visitor env req c a cid st r) rs)"
    using Cons.IH by (rule step_ok_mono[rotated]) auto
  show ?case
    using step_ok_trans[OF a b] by simp
qed

lemma serve_loop:
  assumes "meth \<noteq> ''OPTIONS''" "serve_ready env db req c a"
  shows "serve env db meth req =
    (if run_visitors db req (js_string (campaignId req)) = [] then (NoEligibleVisitors, db, [])
     else (Processed
            (sent (st_results (foldl (process_visitor env req c a (js_string (campaignId req)))
               (initial_state db) (run_visitors db req (js_string (campaignId req))))))
            (failed (st_results (foldl (process_visitor env req c a (js_string (campaignId req)))
               (initial_state db) (run_visitors db req (js_string (campaignId req))))))
            (errors (st_results (foldl (process_visitor env req c a (js_string (campaignId req)))
               (initial_state db) (run_visitors db req (js_string (campaignId req))))))
            (length (run_visitors db req (js_string (campaignId req)))),
           st_db (foldl (process_visitor env req c a (js_string (campaignId req)))
               (initial_state db) (run_visitors db req (js_string (campaignId req)))),
           st_outbox (foldl (process_visitor env req c a (js_string (campaignId req)))
               (initial_state db) (run_visitors db req (js_string (campaignId req))))))"
proof -
  from assms(2) have r: "truthy (campaignId req)" "\<not> campaign_query_error env"
      "filter (\<lambda>c'. c_id c' = js_string (campaignId req)) (follow_up_campaigns db) = [c]"
      "\<not> admin_query_error env"
      "filter (\<lambda>a'. Some (a_id a') = c_admin_id c) (admins db) = [a]"
      "rpc_error env = None"
    by (simp_all add: serve_ready_def the_campaign_def)
  show ?thesis
    unfolding serve_def Let_def
    by (simp add: assms(1) r single_def)
qed

text \<open>Whatever the branch, the run is a sequence of loop steps from the initial state.\<close>

lemma serve_steps:
  "\<exists>st. step_ok env (js_string (campaignId req))
           (visitor_id ` set (run_visitors db req (js_string (campaignId req))))
           (initial_state db) st \<and>
        snd (serve env db meth req) = (st_db st, st_outbox st) \<and>
        (fst (serve env db meth req) =
           Processed (sent (st_results st)) (failed (st_results st)) (errors (st_results st))
             (length (run_visitors db req (js_string (campaignId req)))) \<or>
         (st = initial_state db \<and>
          (\<forall>s f es n. fst (serve env db meth req) \<noteq> Processed s f es n)))"
proof -
  let ?cid = "js_string (campaignId req)"
  let ?V = "visitor_id ` set (run_visitors db req ?cid)"
  have init: "step_ok env ?cid ?V (initial_state db) (initial_state db)"
    by (rule step_ok_refl)
  have fail: ?thesis if "snd (serve env db meth req) = (db, [])"
      "\<forall>s f es n. fst (serve env db meth req) \<noteq> Processed s f es n"
    using that init by (intro exI[of _ "initial_state db"]) (simp add: initial_state_def)
  show ?thesis
  proof (cases "meth = ''OPTIONS''")
    case True
    then show ?thesis by (intro fail) (simp_all add: serve_def)
  next
    case m: False
    show ?thesis
    proof (cases "truthy (campaignId req)")
      case False
      with m show ?thesis by (intro fail) (simp_all add: serve_def)
    next
      case t: True
      show ?thesis
      proof (cases "if campaign_query_error env then None
               else single (filter (\<lambda>c. c_id c = ?cid) (follow_up_campaigns db))")
        case None
        with m t show ?thesis by (intro fail) (simp_all add: serve_def Let_def)
      next
        case c: (Some c)
        show ?thesis
        proof (cases "if admin_query_error env then None
                 else single (filter (\<lambda>a. Some (a_id a) = c_admin_id c) (admins db))")
          case None
          with m t c show ?thesis by (intro fail) (simp_all add: serve_def Let_def)
        next
          case a: (Some a)
          show ?thesis
          proof (cases "rpc_error env")
            case (Some msg)
            with m t c a show ?thesis by (intro fail) (simp_all add: serve_def Let_def)
          next
            case None
            show ?thesis
            proof (cases "run_visitors db req ?cid = []")
              case True
              with m t c a None show ?thesis by (intro fail) (simp_all add: serve_def Let_def)
            next
              case False
              let ?st = "foldl (process_visitor env req c a ?cid) (initial_state db)
                           (run_visitors db req ?cid)"
              have "step_ok env ?cid ?V (initial_state db) ?st"
                by (rule step_ok_foldl)
              moreover have "serve env db meth req =
                  (Processed (sent (st_results ?st)) (failed (st_results ?st))
                     (errors (st_results ?st)) (length (run_visitors db req ?cid)),
                   st_db ?st, st_outbox ?st)"
                using m t c a None False by (simp add: serve_def Let_def)
              ultimately show ?thesis
                by (intro exI[of _ ?st]) simp
            qed
          qed
        qed
      qed
    qed
  qed
qed

lemma serve_new_logs:
  "same_tables db (fst (snd (serve env db meth req))) \<and>
   follow_up_logs (fst (snd (serve env db meth req))) =
     follow_up_logs db @ new_log_entries db (fst (snd (serve env db meth req))) \<and>
   (\<forall>e\<in>set (new_log_entries db (fst (snd (serve env db meth req)))).
      good_entry env (js_string (campaignId req))
        (visitor_id ` set (run_visitors db req (js_string (campaignId req)))) e)"
proof -
  obtain st where st: "step_ok env (js_string (campaignId req))
           (visitor_id ` set (run_visitors db req (js_string (campaignId req))))
           (initial_state db) st"
     "snd (serve env db meth req) = (st_db st, st_outbox st)"
    using serve_steps by blast
  from st(1) obtain new where new: "follow_up_logs (st_db st) = follow_up_logs db @ new"
     "\<forall>e\<in>set new. good_entry env (js_string (campaignId req))
        (visitor_id ` set (run_visitors db req (js_string (campaignId req)))) e"
     and same: "same_tables db (st_db st)"
    by (auto simp: step_ok_def initial_state_def)
  from st(2) have d: "fst (snd (serve env db meth req)) = st_db st" by simp
  have "new_log_entries db (st_db st) = new"
    by (simp add: new_log_entries_def new(1))
  with new same show ?thesis unfolding d by simp
qed


lemma run_visitors_subset:
  "set (run_visitors db req cid) \<subseteq> set (get_eligible_visitors db cid (propertyId req))"
  by (auto simp: run_visitors_def)

text \<open>The messages of a processed visitor are among the provider calls of the loop.\<close>

lemma foldl_outbox_grows:
  "set (st_outbox st) \<subseteq> set (st_outbox (foldl (process_visitor env req c a cid) st rs))"
proof -
  have "step_ok env cid (visitor_id ` set rs) st (foldl (process_visitor env req c a cid) st rs)"
    by (rule step_ok_foldl)
  then have "prefix (st_outbox st) (st_outbox (foldl (process_visitor env req c a cid) st rs))"
    by (simp add: step_ok_def)
  then show ?thesis by (rule set_mono_prefix)
qed

lemma sms_step_outbox_grows:
  "set (st_outbox st) \<subseteq> set (st_outbox (send_sms_step env req c a cid r st))"
proof -
  have "step_ok env cid {visitor_id r} st (send_sms_step env req c a cid r st)"
    by (rule step_ok_sms)
  then have "prefix (st_outbox st) (st_outbox (send_sms_step env req c a cid r st))"
    by (simp add: step_ok_def)
  then show ?thesis by (rule set_mono_prefix)
qed

lemma foldl_outbox_email:
  assumes "r \<in> set rs" "requires_email (effectiveMessageType req c)" "truthy (visitor_email r)"
  shows "email_message c a r \<in> set (st_outbox (foldl (process_visitor env req c a cid) st rs))"
  using assms(1)
proof (induction rs arbitrary: st)
  case Nil
  then show ?case by simp
next
  case (Cons x rs)
  show ?case
  proof (cases "r = x")
    case True
    have "email_message c a r \<in> set (st_outbox (send_email_step env req c a cid r st))"
      using assms(2,3) by (simp add: send_email_step_send)
    then have "email_message c a r \<in> set (st_outbox (process_visitor env req c a cid st r))"
      unfolding process_visitor_def using sms_step_outbox_grows by blast
    then show ?thesis
      using True foldl_outbox_grows by fastforce
  next
    case False
    with Cons.prems have "r \<in> set rs" by simp
    then show ?thesis using Cons.IH by simp
  qed
qed

lemma foldl_outbox_sms:
  assumes "r \<in> set rs" "requires_sms (effectiveMessageType req c)" "truthy (visitor_phone r)"
    "truthy (c_sms_template c)"
  shows "sms_message c a r \<in> set (st_outbox (foldl (process_visitor env req c a cid) st rs))"
  using assms(1)
proof (induction rs arbitrary: st)
  case Nil
  then show ?case by simp
next
  case (Cons x rs)
  show ?case
  proof (cases "r = x")
    case True
    have "sms_message c a r \<in> set (st_outbox (process_visitor env req c a cid st r))"
      unfolding process_visitor_def using assms(2,3,4) by (simp add: send_sms_step_send)
    then show ?thesis
      using True foldl_outbox_grows by fastforce
  next
    case False
    with Cons.prems have "r \<in> set rs" by simp
    then show ?thesis using Cons.IH by simp
  qed
qed

lemma same_tables_fields:
  assumes "same_tables db db'"
  shows "visitors db' = visitors db" "properties db' = properties db"
    "feedback db' = feedback db" "follow_up_campaigns db' = follow_up_campaigns db"
    "admins db' = admins db" "unsubscribes db' = unsubscribes db"
proof -
  from assms have e: "db' = db\<lparr>follow_up_logs := follow_up_logs db'\<rparr>"
    by (simp add: same_tables_def)
  show "visitors db' = visitors db" by (subst e) simp
  show "properties db' = properties db" by (subst e) simp
  show "feedback db' = feedback db" by (subst e) simp
  show "follow_up_campaigns db' = follow_up_campaigns db" by (subst e) simp
  show "admins db' = admins db" by (subst e) simp
  show "unsubscribes db' = unsubscribes db" by (subst e) simp
qed

text \<open>
  The entries of a row do not depend on the log, and the log after the loop is the
  log before it followed by the entries of the rows, in their order.
\<close>

lemma actualPropertyId_same:
  "same_tables db db' \<Longrightarrow> actualPropertyId env db' r = actualPropertyId env db r"
  by (simp add: actualPropertyId_def same_tables_fields)

lemma log_entry_same:
  assumes "same_tables db db'"
  shows "email_log_entry env db' c a cid r = email_log_entry env db c a cid r"
    "sms_log_entry env db' c a cid r = sms_log_entry env db c a cid r"
  by (simp_all add: email_log_entry_def sms_log_entry_def actualPropertyId_same[OF assms])

lemma row_entries_same:
  "same_tables db db' \<Longrightarrow> row_entries env db' req c a cid r = row_entries env db req c a cid r"
  by (simp add: row_entries_def log_entry_same)

lemma send_email_step_logs:
  "follow_up_logs (st_db (send_email_step env req c a cid r st)) =
     follow_up_logs (st_db st) @
       (if requires_email (effectiveMessageType req c) \<and> truthy (visitor_email r) \<and>
           \<not> insert_error env (email_log_entry env (st_db st) c a cid r)
        then [email_log_entry env (st_db st) c a cid r] else [])"
proof (cases "requires_email (effectiveMessageType req c) \<and> truthy (visitor_email r)")
  case True
  then show ?thesis by (simp add: send_email_step_send logFollowUp_logs)
next
  case False
  then have "send_email_step env req c a cid r st = st" by (rule send_email_step_skip)
  with False show ?thesis by auto
qed

lemma send_sms_step_logs:
  "follow_up_logs (st_db (send_sms_step env req c a cid r st)) =
     follow_up_logs (st_db st) @
       (if requires_sms (effectiveMessageType req c) \<and> truthy (visitor_phone r) \<and>
           truthy (c_sms_template c) \<and>
           \<not> insert_error env (sms_log_entry env (st_db st) c a cid r)
        then [sms_log_entry env (st_db st) c a cid r] else [])"
proof (cases "requires_sms (effectiveMessageType req c) \<and> truthy (visitor_phone r) \<and>
    truthy (c_sms_template c)")
  case True
  then show ?thesis by (simp add: send_sms_step_send logFollowUp_logs)
next
  case False
  then have "send_sms_step env req c a cid r st = st" by (rule send_sms_step_skip)
  with False show ?thesis by auto
qed

lemma process_visitor_logs:
  "follow_up_logs (st_db (process_visitor env req c a cid st r)) =
     follow_up_logs (st_db st) @ row_entries env (st_db st) req c a cid r"
proof -
  let ?st1 = "send_email_step env req c a cid r st"
  have "step_ok env cid {visitor_id r} st ?st1" by (rule step_ok_email)
  then have same: "same_tables (st_db st) (st_db ?st1)" by (simp add: step_ok_def)
  have e: "sms_log_entry env (st_db ?st1) c a cid r = sms_log_entry env (st_db st) c a cid r"
    using same by (rule log_entry_same)
  show ?thesis
    unfolding process_visitor_def send_sms_step_logs send_email_step_logs e row_entries_def
    by simp
qed

lemma foldl_logs:
  "follow_up_logs (st_db (foldl (process_visitor env req c a cid) st rs)) =
     follow_up_logs (st_db st) @ concat (map (row_entries env (st_db st) req c a cid) rs)"
proof (induction rs arbitrary: st)
  case Nil
  then show ?case by simp
next
  case (Cons r rs)
  let ?st1 = "process_visitor env req c a cid st r"
  have "step_ok env cid {visitor_id r} st ?st1" by (rule step_ok_process)
  then have same: "same_tables (st_db st) (st_db ?st1)" by (simp add: step_ok_def)
  have m: "map (row_entries env (st_db ?st1) req c a cid) rs =
           map (row_entries env (st_db st) req c a cid) rs"
    by (simp add: row_entries_same[OF same])
  have "follow_up_logs (st_db (foldl (process_visitor env req c a cid) ?st1 rs)) =
        follow_up_logs (st_db ?st1) @ concat (map (row_entries env (st_db ?st1) req c a cid) rs)"
    by (rule Cons.IH)
  then show ?case
    unfolding m process_visitor_logs by simp
qed

lemma serve_new_entries:
  assumes "meth \<noteq> ''OPTIONS''" "serve_ready env db req c a"
  shows "new_log_entries db (fst (snd (serve env db meth req))) =
     concat (map (row_entries env db req c a (js_string (campaignId req)))
               (run_visitors db req (js_string (campaignId req))))"
proof (cases "run_visitors db req (js_string (campaignId req)) = []")
  case True
  then show ?thesis
    by (simp add: serve_loop[OF assms] new_log_entries_def)
next
  case False
  have "follow_up_logs (st_db (foldl (process_visitor env req c a (js_string (campaignId req)))
           (initial_state db) (run_visitors db req (js_string (campaignId req))))) =
        follow_up_logs db @
          concat (map (row_entries env db req c a (js_string (campaignId req)))
                    (run_visitors db req (js_string (campaignId req))))"
    using foldl_logs[of env req c a "js_string (campaignId req)" "initial_state db"]
    by (simp add: initial_state_def)
  with False show ?thesis
    by (simp add: serve_loop[OF assms] new_log_entries_def)
qed

lemma row_entries_visitor:
  "e \<in> set (row_entries env db req c a cid r) \<Longrightarrow> lg_visitor_id e = visitor_id r"
  by (auto simp: row_entries_def email_log_entry_def sms_log_entry_def split: if_splits)

lemma entries_of_rows:
  "entries_of vid (concat (map (row_entries env db req c a cid) rs)) =
   concat (map (row_entries env db req c a cid) (rows_of vid rs))"
proof (induction rs)
  case Nil
  then show ?case by (simp add: entries_of_def rows_of_def)
next
  case (Cons r rs)
  have "filter (\<lambda>e. lg_visitor_id e = vid) (row_entries env db req c a cid r) =
        (if visitor_id r = vid then row_entries env db req c a cid r else [])"
    using row_entries_visitor[of _ env db req c a cid r]
    by (auto simp: filter_empty_conv intro!: filter_True)
  with Cons show ?case
    by (simp add: entries_of_def rows_of_def)
qed

text \<open>
  A row of the resolver is returned again from a store that differs in the log only
  exactly when the log has no entry of its visitor for the campaign that is not failed.
\<close>

lemma eligible_carry:
  assumes "same_tables db db'" "r \<in> set (get_eligible_visitors db cid pp)"
    "\<not> has_non_failed_log db' cid (visitor_id r)"
  shows "r \<in> set (get_eligible_visitors db' cid pp)"
proof -
  note f = same_tables_fields[OF assms(1)]
  from assms(2) obtain v p fb c where h: "v \<in> set (visitors db)" "property_match db v p"
      "feedback_match db v fb" "campaign_match db cid (Some c)"
      "is_true (trigger_case (Some c) fb)" "in_scope pp c v"
      "\<not> unsubscribed db (v_email v) (v_phone v)" "\<not> has_non_failed_log db cid (v_id v)"
      "r = select_row ((((v, p), fb), Some c), None)"
    unfolding eligible_row_iff by blast
  from h(9) have id: "visitor_id r = v_id v" by (simp add: select_row_contact)
  have "\<not> has_non_failed_log db' cid (v_id v)"
    using assms(3) id by simp
  moreover have "property_match db' v p" "feedback_match db' v fb"
      "campaign_match db' cid (Some c)" "\<not> unsubscribed db' (v_email v) (v_phone v)"
    using h by (simp_all add: f property_match_def feedback_match_def campaign_match_def
        unsubscribed_def has_feedback_row_def cong: option.case_cong)
  moreover have "v \<in> set (visitors db')" using h f by simp
  ultimately have "v \<in> set (visitors db') \<and> property_match db' v p \<and> feedback_match db' v fb \<and>
        campaign_match db' cid (Some c) \<and> is_true (trigger_case (Some c) fb) \<and>
        in_scope pp c v \<and> \<not> unsubscribed db' (v_email v) (v_phone v) \<and>
        \<not> has_non_failed_log db' cid (v_id v) \<and> r = select_row ((((v, p), fb), Some c), None)"
    using h by simp
  then show ?thesis
    unfolding eligible_row_iff by blast
qed

lemma eligible_no_log:
  assumes "r \<in> set (get_eligible_visitors db cid pp)"
  shows "\<not> has_non_failed_log db cid (visitor_id r)"
proof -
  from assms obtain v p fb c where h: "\<not> has_non_failed_log db cid (v_id v)"
      "r = select_row ((((v, p), fb), Some c), None)"
    unfolding eligible_row_iff by blast
  from h(2) have "visitor_id r = v_id v" by (simp add: select_row_contact)
  with h(1) show ?thesis by simp
qed




text \<open>Log entries of other visitors do not change whether a visitor's row is returned.\<close>

lemma eligible_stable:
  assumes "same_tables db db'" "follow_up_logs db' = follow_up_logs db @ new"
    "\<forall>e\<in>set new. lg_visitor_id e \<noteq> visitor_id r"
    "r \<in> set (get_eligible_visitors db cid pp)"
  shows "r \<in> set (get_eligible_visitors db' cid pp)"
proof -
  have "\<not> has_non_failed_log db cid (visitor_id r)"
    using assms(4) by (rule eligible_no_log)
  then have "\<not> has_non_failed_log db' cid (visitor_id r)"
    using assms(2,3) by (auto simp: has_non_failed_log_def non_failed_def)
  with assms(1,4) show ?thesis by (rule eligible_carry)
qed

section \<open>The claims about the renderer\<close>

text \<open>
  Claim C4, as the code has it, for mappings whose keys are plain. The renderer only
  looks for the placeholders of the keys of the mapping. With an empty mapping every
  template comes back unchanged. With a mapping of plain keys, a template that holds
  no placeholder of a key comes back unchanged, whatever other placeholders it
  holds. In a well-formed template rendered with a mapping of plain keys and of values
  without brace or dollar sign, a placeholder whose name is a key is replaced by its
  value, by nothing when the value is null, undefined or empty, and every placeholder
  whose name is absent from the mapping stays in place.
\<close>

theorem absent_placeholders_stay:
  "replaceTemplateVariables template [] = template \<and>
   (plain_keys m \<and> (\<forall>kv\<in>set m. \<not> sublist (placeholder (fst kv)) template) \<longrightarrow>
      replaceTemplateVariables template m = template) \<and>
   (well_formed segs \<and> plain_mapping m' \<longrightarrow>
      replaceTemplateVariables (flatten segs) m' = flatten (map (expand_seg m') segs))"
  using no_occurrences[of m template] render_well_formed[of segs m'] by simp

theorem absent_placeholders_stay_witness:
  "replaceTemplateVariables ''{{visitor_name}}{{property_name}}'' [(''admin_name'', Some ''Ann'')]
     = ''{{visitor_name}}{{property_name}}'' \<and>
   replaceTemplateVariables ''{{visitor_name}} at {{property_name}}''
     [(''visitor_name'', Some ''Jane''), (''admin_name'', None)] = ''Jane at {{property_name}}'' \<and>
   replaceTemplateVariables ''{{admin_name}}, for {{visitor_name}}''
     [(''visitor_name'', Some ''Jane''), (''admin_name'', None)] = '', for Jane''"
proof -
  let ?t = "''{{visitor_name}}{{property_name}}''"
  let ?m = "[(''admin_name'', Some ''Ann'')]"
  let ?segs = "[Var ''visitor_name'', Lit '' at '', Var ''property_name'']"
  let ?segs' = "[Var ''admin_name'', Lit '', for '', Var ''visitor_name'']"
  let ?m' = "[(''visitor_name'', Some ''Jane''), (''admin_name'', None)]"
  have h1: "plain_keys ?m \<and> (\<forall>kv\<in>set ?m. \<not> sublist (placeholder (fst kv)) ?t)"
    by code_simp
  have h2: "well_formed ?segs \<and> plain_mapping ?m'" "well_formed ?segs' \<and> plain_mapping ?m'"
    by code_simp+
  have f: "flatten ?segs = ''{{visitor_name}} at {{property_name}}''"
    "flatten ?segs' = ''{{admin_name}}, for {{visitor_name}}''"
    by (simp_all add: placeholder_def)
  have g: "flatten (map (expand_seg ?m') ?segs) = ''Jane at {{property_name}}''"
    "flatten (map (expand_seg ?m') ?segs') = '', for Jane''"
    by (simp_all add: placeholder_def or_empty_def)
  from absent_placeholders_stay[of ?t ?m ?segs ?m'] h1 h2(1)
    absent_placeholders_stay[of ?t ?m ?segs' ?m'] h2(2)
  show ?thesis
    unfolding f g by blast
qed

text \<open>
  The claim as the specification words it fails: with an empty mapping the two
  placeholders are not replaced by the empty string.
\<close>

theorem empty_mapping_keeps_placeholders:
  "replaceTemplateVariables ''{{visitor_name}}{{property_name}}'' [] \<noteq> []"
  by simp

text \<open>
  Claim C9, as the code has it. The replacement for one plain key is a single pass: the
  text put in place of a placeholder is not scanned again for that key. The passes of
  the later keys do scan it. When the template is well formed and the mapping plain, no
  value can bring in a placeholder, and rendering the output once more with the same
  mapping changes nothing.
\<close>

theorem render_twice_well_formed:
  "(well_formed segs \<and> plain_mapping m \<longrightarrow>
      replaceTemplateVariables (replaceTemplateVariables (flatten segs) m) m =
      replaceTemplateVariables (flatten segs) m) \<and>
   (plain_key k \<longrightarrow>
      replace_global k v b (placeholder k @ rest) =
        get_substitution (placeholder k) b rest v @ replace_global k v (b @ placeholder k) rest)"
proof -
  have idem: "replaceTemplateVariables (replaceTemplateVariables (flatten segs) m) m =
      replaceTemplateVariables (flatten segs) m" if wf: "well_formed segs" and pm: "plain_mapping m"
  proof -
    let ?out = "map (expand_seg m) segs"
    have a: "replaceTemplateVariables (flatten segs) m = flatten ?out"
      using wf pm by (rule render_well_formed)
    have "well_formed ?out"
      using wf pm by (rule well_formed_expand)
    then have b: "replaceTemplateVariables (flatten ?out) m = flatten (map (expand_seg m) ?out)"
      using pm by (rule render_well_formed)
    have c: "map (expand_seg m) ?out = ?out"
      by (simp add: expand_seg_idem)
    show ?thesis
      by (simp only: a b c)
  qed
  have "prefix (placeholder k) (placeholder k @ rest)" by simp
  from scan_placeholder_match[OF this, of v b]
  have "scan_placeholder k v b (placeholder k @ rest) =
        get_substitution (placeholder k) b rest v @ scan_placeholder k v (b @ placeholder k) rest"
    by simp
  then have "replace_global k v b (placeholder k @ rest) =
        get_substitution (placeholder k) b rest v @ replace_global k v (b @ placeholder k) rest"
    if "plain_key k"
    using that by (simp add: replace_global_plain)
  with idem show ?thesis by blast
qed

theorem render_twice_well_formed_witness:
  "well_formed [Lit ''Hi '', Var ''visitor_name'', Lit '', from '', Var ''agent''] \<and>
   plain_mapping [(''visitor_name'', Some ''Jane''), (''admin_name'', Some ''Ann'')] \<and>
   replaceTemplateVariables
     (replaceTemplateVariables ''Hi {{visitor_name}}, from {{agent}}''
        [(''visitor_name'', Some ''Jane''), (''admin_name'', Some ''Ann'')])
     [(''visitor_name'', Some ''Jane''), (''admin_name'', Some ''Ann'')] =
   replaceTemplateVariables ''Hi {{visitor_name}}, from {{agent}}''
        [(''visitor_name'', Some ''Jane''), (''admin_name'', Some ''Ann'')] \<and>
   plain_key ''visitor_name'' \<and>
   replace_global ''visitor_name'' ''{{visitor_name}}'' [] (placeholder ''visitor_name'' @ ''!'') =
     ''{{visitor_name}}'' @ replace_global ''visitor_name'' ''{{visitor_name}}''
        (placeholder ''visitor_name'') ''!''"
proof -
  let ?segs = "[Lit ''Hi '', Var ''visitor_name'', Lit '', from '', Var ''agent'']"
  let ?m = "[(''visitor_name'', Some ''Jane''), (''admin_name'', Some ''Ann'')]"
  have h: "well_formed ?segs \<and> plain_mapping ?m"
    by code_simp
  have pk: "plain_key ''visitor_name''"
    by code_simp
  have f: "flatten ?segs = ''Hi {{visitor_name}}, from {{agent}}''"
    by (simp add: placeholder_def)
  have g: "get_substitution (placeholder ''visitor_name'') [] ''!'' ''{{visitor_name}}''
             = ''{{visitor_name}}''"
    by (simp add: get_substitution_plain)
  from render_twice_well_formed[of ?segs ?m "''visitor_name''" "''{{visitor_name}}''" "[]" "''!''"]
    h pk
  show ?thesis
    unfolding f g by simp
qed

text \<open>
  The claim as the specification words it fails twice. A visitor whose name is the
  text of the admin placeholder gets the admin's name: the placeholder brought in by
  the value of the first key is expanded by the pass of a later key. And an output
  that holds the placeholder of an earlier key changes when it is rendered again.
\<close>

theorem inserted_placeholder_expanded:
  "replaceTemplateVariables ''Hi {{visitor_name}}''
     [(''visitor_name'', Some ''{{admin_name}}''), (''admin_name'', Some ''Ann'')] = ''Hi Ann'' \<and>
   replaceTemplateVariables
     (replaceTemplateVariables ''{{admin_name}}''
        [(''visitor_name'', Some ''Jane''), (''admin_name'', Some ''{{visitor_name}}'')])
     [(''visitor_name'', Some ''Jane''), (''admin_name'', Some ''{{visitor_name}}'')]
   \<noteq> replaceTemplateVariables ''{{admin_name}}''
        [(''visitor_name'', Some ''Jane''), (''admin_name'', Some ''{{visitor_name}}'')]"
  by code_simp

text \<open>
  Claim C6 against the code. The mapping built in the loop has six entries. The
  placeholders of the six other variables that the campaign form accepts and the
  setup guide lists are never replaced, whatever the visitor and the admin: the
  message goes out with the placeholder in it.
\<close>

theorem six_variables_never_rendered:
  "replaceTemplateVariables ''{{visitor_email}}'' (templateVariables visitor admin)
     = ''{{visitor_email}}'' \<and>
   replaceTemplateVariables ''{{visitor_phone}}'' (templateVariables visitor admin)
     = ''{{visitor_phone}}'' \<and>
   replaceTemplateVariables ''{{visit_date}}'' (templateVariables visitor admin)
     = ''{{visit_date}}'' \<and>
   replaceTemplateVariables ''{{feedback_rating}}'' (templateVariables visitor admin)
     = ''{{feedback_rating}}'' \<and>
   replaceTemplateVariables ''{{feedback_comments}}'' (templateVariables visitor admin)
     = ''{{feedback_comments}}'' \<and>
   replaceTemplateVariables ''{{interested}}'' (templateVariables visitor admin)
     = ''{{interested}}'' \<and>
   snd (snd (serve env_ok (store (camp\<lparr>c_email_template := Some ''Write to {{visitor_email}}''\<rparr>))
               ''POST'' (request (Some [jane_id])))) =
     [Email ''jane@example.com'' ''Hi Jane'' ''Write to {{visitor_email}}''
        ''Write to {{visitor_email}}'' None]"
proof -
  have "replaceTemplateVariables t (templateVariables visitor admin) = t"
    if "\<forall>k\<in>set [''visitor_name'', ''property_name'', ''property_address'', ''admin_name'',
          ''admin_email'', ''admin_phone'']. \<not> sublist (placeholder k) t" for t
    using templateVariables_plain that
    by (intro no_occurrences) (simp_all add: templateVariables_def)
  moreover have "\<forall>t\<in>set [''{{visitor_email}}'', ''{{visitor_phone}}'', ''{{visit_date}}'',
      ''{{feedback_rating}}'', ''{{feedback_comments}}'', ''{{interested}}''].
     \<forall>k\<in>set [''visitor_name'', ''property_name'', ''property_address'', ''admin_name'',
          ''admin_email'', ''admin_phone'']. \<not> sublist (placeholder k) t"
    by code_simp
  moreover have "snd (snd (serve env_ok
        (store (camp\<lparr>c_email_template := Some ''Write to {{visitor_email}}''\<rparr>))
               ''POST'' (request (Some [jane_id])))) =
     [Email ''jane@example.com'' ''Hi Jane'' ''Write to {{visitor_email}}''
        ''Write to {{visitor_email}}'' None]"
    by code_simp
  ultimately show ?thesis by simp
qed

section \<open>More about the resolver and the loop\<close>

lemma the_campaign_member:
  assumes "the_campaign db cid c"
  shows "c \<in> set (follow_up_campaigns db)" "c_id c = cid"
proof -
  have "campaign_match db cid (Some c)"
    using the_campaign_match[OF assms] by simp
  then show "c \<in> set (follow_up_campaigns db)" "c_id c = cid"
    by (simp_all add: campaign_match_def)
qed

lemma run_visitors_member:
  assumes "r \<in> set (get_eligible_visitors db cid (propertyId req))"
    "has_visitorIds req \<longrightarrow>
       visitor_id r \<in> set (case visitorIds req of None \<Rightarrow> [] | Some ids \<Rightarrow> ids)"
  shows "r \<in> set (run_visitors db req cid)"
  using assms by (simp add: run_visitors_def)

lemma run_visitors_iff:
  "r \<in> set (run_visitors db req cid) \<longleftrightarrow>
     r \<in> set (get_eligible_visitors db cid (propertyId req)) \<and>
     (has_visitorIds req \<longrightarrow>
        visitor_id r \<in> set (case visitorIds req of None \<Rightarrow> [] | Some ids \<Rightarrow> ids))"
  by (auto simp: run_visitors_def)

lemma serve_outbox:
  assumes "meth \<noteq> ''OPTIONS''" "serve_ready env db req c a"
  shows "snd (snd (serve env db meth req)) =
     st_outbox (foldl (process_visitor env req c a (js_string (campaignId req)))
       (initial_state db) (run_visitors db req (js_string (campaignId req))))"
  by (simp add: serve_loop[OF assms] initial_state_def)


lemma serve_processed:
  assumes "meth \<noteq> ''OPTIONS''" "serve_ready env db req c a"
    "r \<in> set (run_visitors db req (js_string (campaignId req)))"
  shows "\<exists>s f es n. fst (serve env db meth req) = Processed s f es n"
proof -
  from assms(3) have "run_visitors db req (js_string (campaignId req)) \<noteq> []" by auto
  then show ?thesis by (simp add: serve_loop[OF assms(1,2)])
qed

lemma serve_failures:
  assumes "fst (serve env db meth req) = Failure msg"
  shows "msg = ''Campaign ID is required'' \<or> msg = ''Campaign not found'' \<or>
         msg = ''Admin not found'' \<or> rpc_error env = Some msg"
  using assms unfolding serve_def Let_def
  by (auto split: if_splits option.splits)

lemma serve_incoming_failures:
  assumes "fst (serve_incoming env db meth inc) = Failure msg"
  shows "inc = Thrown msg \<or> msg = ''Campaign ID is required'' \<or>
         msg = ''Campaign not found'' \<or> msg = ''Admin not found'' \<or>
         rpc_error env = Some msg"
proof (cases inc)
  case (Thrown m)
  with assms show ?thesis
    by (simp add: serve_incoming_def split: if_splits)
next
  case (Parsed req)
  with assms have "fst (serve env db meth req) = Failure msg"
    by (simp add: serve_incoming_def split: if_splits)
  from serve_failures[OF this] show ?thesis by blast
qed

text \<open>The resolver never reads the message type of a campaign.\<close>

lemma message_type_irrelevant:
  "set (get_eligible_visitors
          (db\<lparr>follow_up_campaigns :=
                map (\<lambda>c. c\<lparr>c_message_type := mt\<rparr>) (follow_up_campaigns db)\<rparr>) cid pp) =
   set (get_eligible_visitors db cid pp)"
proof -
  let ?g = "\<lambda>c. c\<lparr>c_message_type := mt\<rparr>"
  let ?db = "db\<lparr>follow_up_campaigns := map ?g (follow_up_campaigns db)\<rparr>"
  have pm: "property_match ?db v p = property_match db v p" for v p
    by (simp add: property_match_def cong: option.case_cong)
  have fm: "feedback_match ?db v f = feedback_match db v f" for v f
    by (simp add: feedback_match_def has_feedback_row_def cong: option.case_cong)
  have un: "unsubscribed ?db e ph = unsubscribed db e ph" for e ph
    by (simp add: unsubscribed_def)
  have lg: "has_non_failed_log ?db cid i = has_non_failed_log db cid i" for i
    by (simp add: has_non_failed_log_def)
  have cm: "campaign_match ?db cid (Some c') \<longleftrightarrow>
            (\<exists>c0. campaign_match db cid (Some c0) \<and> c' = ?g c0)" for c'
    by (auto simp: campaign_match_def)
  have tr: "trigger_case (Some (?g c0)) f = trigger_case (Some c0) f" for c0 f
    by (simp add: trigger_case_def col_def)
  have sc: "in_scope pp (?g c0) v = in_scope pp c0 v" for c0 v
    by (simp add: in_scope_def)
  have sr: "select_row ((((v, p), f), Some (?g c0)), None) =
            select_row ((((v, p), f), Some c0), None)" for v p f c0
    by (simp add: select_row_def)
  show ?thesis
  proof (intro set_eqI iffI)
    fix r assume "r \<in> set (get_eligible_visitors ?db cid pp)"
    then obtain v p f c' where h: "v \<in> set (visitors db)" "property_match db v p"
        "feedback_match db v f" "campaign_match ?db cid (Some c')"
        "is_true (trigger_case (Some c') f)" "in_scope pp c' v"
        "\<not> unsubscribed db (v_email v) (v_phone v)" "\<not> has_non_failed_log db cid (v_id v)"
        "r = select_row ((((v, p), f), Some c'), None)"
      unfolding eligible_row_iff pm fm un lg by auto
    from h(4) obtain c0 where c0: "campaign_match db cid (Some c0)" "c' = ?g c0"
      unfolding cm by blast
    have "v \<in> set (visitors db) \<and> property_match db v p \<and> feedback_match db v f \<and>
        campaign_match db cid (Some c0) \<and> is_true (trigger_case (Some c0) f) \<and>
        in_scope pp c0 v \<and> \<not> unsubscribed db (v_email v) (v_phone v) \<and>
        \<not> has_non_failed_log db cid (v_id v) \<and> r = select_row ((((v, p), f), Some c0), None)"
      using h c0 by (simp add: tr sc sr)
    then show "r \<in> set (get_eligible_visitors db cid pp)"
      unfolding eligible_row_iff by blast
  next
    fix r assume "r \<in> set (get_eligible_visitors db cid pp)"
    then obtain v p f c0 where h: "v \<in> set (visitors db)" "property_match db v p"
        "feedback_match db v f" "campaign_match db cid (Some c0)"
        "is_true (trigger_case (Some c0) f)" "in_scope pp c0 v"
        "\<not> unsubscribed db (v_email v) (v_phone v)" "\<not> has_non_failed_log db cid (v_id v)"
        "r = select_row ((((v, p), f), Some c0), None)"
      unfolding eligible_row_iff by blast
    have c': "campaign_match ?db cid (Some (?g c0))"
      unfolding cm using h(4) by blast
    have "v \<in> set (visitors ?db) \<and> property_match ?db v p \<and> feedback_match ?db v f \<and>
        campaign_match ?db cid (Some (?g c0)) \<and> is_true (trigger_case (Some (?g c0)) f) \<and>
        in_scope pp (?g c0) v \<and> \<not> unsubscribed ?db (v_email v) (v_phone v) \<and>
        \<not> has_non_failed_log ?db cid (v_id v) \<and>
        r = select_row ((((v, p), f), Some (?g c0)), None)"
      using h c' by (simp add: pm fm un lg tr sc sr)
    then show "r \<in> set (get_eligible_visitors ?db cid pp)"
      unfolding eligible_row_iff by blast
  qed
qed

section \<open>The claims about the resolver\<close>

text \<open>
  Claim C1, as the code has it. The log is one of four filters, so its entries decide
  alone only among the visitors that the other three let through. For a stored campaign
  and a stored visitor within the property scope, selected by the trigger condition and
  not unsubscribed, the resolver leaves the visitor out exactly when the log has an
  entry of that visitor and campaign whose status is not failed. A visitor with such
  an entry is not among the visitors of a run, and the run adds no log entry for it.
  A visitor who passes the four filters, one whose entries for the campaign are all
  failed included, and who is in the list of ids when one is given, is among the visitors
  of the run; a run that finds the campaign and its admin and gets the resolver's rows
  calls the email provider for the visitor when the effective type is email or both
  and the visitor has an address, and the sms provider when the effective type is sms
  or both, the visitor has a number and the campaign has an sms template.
\<close>

theorem duplicate_suppression_among_filtered:
  "(the_campaign db cid c \<and> v \<in> set (visitors db) \<and> in_scope pp c v \<and> trigger_ok c db v \<and>
    \<not> unsubscribed db (v_email v) (v_phone v) \<longrightarrow>
      (v_id v \<in> eligible_ids db cid pp \<longleftrightarrow> \<not> has_non_failed_log db cid (v_id v))) \<and>
   (has_non_failed_log db (js_string (campaignId req)) vid \<longrightarrow>
      vid \<notin> visitor_id ` set (run_visitors db req (js_string (campaignId req))) \<and>
      (\<forall>e\<in>set (new_log_entries db (fst (snd (serve env db meth req)))).
         lg_visitor_id e \<noteq> vid)) \<and>
   (meth \<noteq> ''OPTIONS'' \<and> serve_ready env db req c' a \<and> v' \<in> set (visitors db) \<and>
    in_scope (propertyId req) c' v' \<and> trigger_ok c' db v' \<and>
    \<not> unsubscribed db (v_email v') (v_phone v') \<and>
    \<not> has_non_failed_log db (js_string (campaignId req)) (v_id v') \<and>
    (has_visitorIds req \<longrightarrow>
       v_id v' \<in> set (case visitorIds req of None \<Rightarrow> [] | Some ids \<Rightarrow> ids)) \<longrightarrow>
      (\<exists>r\<in>set (run_visitors db req (js_string (campaignId req))).
         visitor_id r = v_id v' \<and> visitor_email r = v_email v' \<and>
         visitor_phone r = v_phone v' \<and>
         (requires_email (effectiveMessageType req c') \<and> truthy (v_email v') \<longrightarrow>
            email_message c' a r \<in> set (snd (snd (serve env db meth req)))) \<and>
         (requires_sms (effectiveMessageType req c') \<and> truthy (v_phone v') \<and>
          truthy (c_sms_template c') \<longrightarrow>
            sms_message c' a r \<in> set (snd (snd (serve env db meth req))))))"
proof (intro conjI impI)
  assume h: "the_campaign db cid c \<and> v \<in> set (visitors db) \<and> in_scope pp c v \<and>
    trigger_ok c db v \<and> \<not> unsubscribed db (v_email v) (v_phone v)"
  show "v_id v \<in> eligible_ids db cid pp \<longleftrightarrow> \<not> has_non_failed_log db cid (v_id v)"
  proof
    assume "v_id v \<in> eligible_ids db cid pp"
    then obtain w where "w \<in> set (visitors db)" "eligible_visitor db cid pp c w" "v_id w = v_id v"
      using h eligible_ids_eq[of db cid c pp] by auto
    then show "\<not> has_non_failed_log db cid (v_id v)"
      by (simp add: eligible_visitor_def)
  next
    assume "\<not> has_non_failed_log db cid (v_id v)"
    with h have "eligible_visitor db cid pp c v" by (simp add: eligible_visitor_def)
    with h show "v_id v \<in> eligible_ids db cid pp"
      using eligible_ids_eq[of db cid c pp] by blast
  qed
next
  let ?cid = "js_string (campaignId req)"
  assume h: "has_non_failed_log db ?cid vid"
  show "vid \<notin> visitor_id ` set (run_visitors db req ?cid)"
  proof
    assume "vid \<in> visitor_id ` set (run_visitors db req ?cid)"
    then obtain r where r: "r \<in> set (run_visitors db req ?cid)" "visitor_id r = vid" by auto
    then have "r \<in> set (get_eligible_visitors db ?cid (propertyId req))"
      using run_visitors_subset by blast
    from eligible_row_sound[OF this] r(2) have "\<not> has_non_failed_log db ?cid vid"
      by (auto simp: eligible_visitor_def)
    with h show False by simp
  qed
  then show "\<forall>e\<in>set (new_log_entries db (fst (snd (serve env db meth req)))).
         lg_visitor_id e \<noteq> vid"
    using serve_new_logs[of db env meth req] by (auto simp: good_entry_def)
next
  let ?cid = "js_string (campaignId req)"
  assume h: "meth \<noteq> ''OPTIONS'' \<and> serve_ready env db req c' a \<and> v' \<in> set (visitors db) \<and>
    in_scope (propertyId req) c' v' \<and> trigger_ok c' db v' \<and>
    \<not> unsubscribed db (v_email v') (v_phone v') \<and>
    \<not> has_non_failed_log db ?cid (v_id v') \<and>
    (has_visitorIds req \<longrightarrow>
       v_id v' \<in> set (case visitorIds req of None \<Rightarrow> [] | Some ids \<Rightarrow> ids))"
  then have tc: "the_campaign db ?cid c'" by (simp add: serve_ready_def)
  have ev: "eligible_visitor db ?cid (propertyId req) c' v'"
    using h by (simp add: eligible_visitor_def)
  from eligible_row_complete[OF _ the_campaign_member[OF tc] ev] h
  obtain r where r: "r \<in> set (get_eligible_visitors db ?cid (propertyId req))"
      "visitor_id r = v_id v'" "visitor_email r = v_email v'" "visitor_phone r = v_phone v'"
    by blast
  have rv: "r \<in> set (run_visitors db req ?cid)"
    using r(1,2) h by (intro run_visitors_member) simp_all
  have out: "snd (snd (serve env db meth req)) =
     st_outbox (foldl (process_visitor env req c' a ?cid) (initial_state db)
       (run_visitors db req ?cid))"
    using h by (intro serve_outbox) simp_all
  have "requires_email (effectiveMessageType req c') \<and> truthy (v_email v') \<longrightarrow>
            email_message c' a r \<in> set (snd (snd (serve env db meth req)))"
    unfolding out using foldl_outbox_email[OF rv] r(3) by simp
  moreover have "requires_sms (effectiveMessageType req c') \<and> truthy (v_phone v') \<and>
          truthy (c_sms_template c') \<longrightarrow>
            sms_message c' a r \<in> set (snd (snd (serve env db meth req)))"
    unfolding out using foldl_outbox_sms[OF rv] r(4) by simp
  ultimately show "\<exists>r\<in>set (run_visitors db req ?cid).
         visitor_id r = v_id v' \<and> visitor_email r = v_email v' \<and>
         visitor_phone r = v_phone v' \<and>
         (requires_email (effectiveMessageType req c') \<and> truthy (v_email v') \<longrightarrow>
            email_message c' a r \<in> set (snd (snd (serve env db meth req)))) \<and>
         (requires_sms (effectiveMessageType req c') \<and> truthy (v_phone v') \<and>
          truthy (c_sms_template c') \<longrightarrow>
            sms_message c' a r \<in> set (snd (snd (serve env db meth req))))"
    using rv r by blast
qed

theorem duplicate_suppression_among_filtered_witness:
  "(bob_id \<in> eligible_ids ((store both_camp)\<lparr>follow_up_logs :=
        [log_of jane_id ''sent'', log_of bob_id ''failed'']\<rparr>) camp_id None) \<and>
   (jane_id \<notin> eligible_ids ((store both_camp)\<lparr>follow_up_logs :=
        [log_of jane_id ''sent'', log_of bob_id ''failed'']\<rparr>) camp_id None) \<and>
   jane_id \<notin> lg_visitor_id ` set (new_log_entries
        ((store both_camp)\<lparr>follow_up_logs :=
           [log_of jane_id ''sent'', log_of bob_id ''failed'']\<rparr>)
        (fst (snd (serve env_ok
           ((store both_camp)\<lparr>follow_up_logs :=
              [log_of jane_id ''sent'', log_of bob_id ''failed'']\<rparr>)
           ''POST'' (request None))))) \<and>
   (\<exists>r\<in>set (run_visitors
        ((store both_camp)\<lparr>follow_up_logs :=
           [log_of jane_id ''sent'', log_of bob_id ''failed'']\<rparr>)
        (request None) camp_id).
      visitor_id r = bob_id \<and>
      email_message both_camp ann r \<in> set (snd (snd (serve env_ok
           ((store both_camp)\<lparr>follow_up_logs :=
              [log_of jane_id ''sent'', log_of bob_id ''failed'']\<rparr>)
           ''POST'' (request None)))) \<and>
      sms_message both_camp ann r \<in> set (snd (snd (serve env_ok
           ((store both_camp)\<lparr>follow_up_logs :=
              [log_of jane_id ''sent'', log_of bob_id ''failed'']\<rparr>)
           ''POST'' (request None)))))"
proof -
  let ?D = "(store both_camp)\<lparr>follow_up_logs :=
              [log_of jane_id ''sent'', log_of bob_id ''failed'']\<rparr>"
  let ?req = "request None"
  have cid: "js_string (campaignId ?req) = camp_id"
    by (simp add: request_def js_string_def)
  have h1: "the_campaign ?D camp_id both_camp \<and> bob \<in> set (visitors ?D) \<and>
      in_scope None both_camp bob \<and>
      trigger_ok both_camp ?D bob \<and> \<not> unsubscribed ?D (v_email bob) (v_phone bob)"
    by code_simp
  have h1': "the_campaign ?D camp_id both_camp \<and> jane \<in> set (visitors ?D) \<and>
      in_scope None both_camp jane \<and>
      trigger_ok both_camp ?D jane \<and> \<not> unsubscribed ?D (v_email jane) (v_phone jane)"
    by code_simp
  have nb: "\<not> has_non_failed_log ?D camp_id bob_id" "v_id bob = bob_id"
    by code_simp+
  have h2: "has_non_failed_log ?D camp_id jane_id" "v_id jane = jane_id"
    by code_simp+
  have h3: "''POST'' \<noteq> ''OPTIONS'' \<and> serve_ready env_ok ?D ?req both_camp ann \<and>
      in_scope (propertyId ?req) both_camp bob \<and>
      (has_visitorIds ?req \<longrightarrow>
         v_id bob \<in> set (case visitorIds ?req of None \<Rightarrow> [] | Some ids \<Rightarrow> ids)) \<and>
      requires_email (effectiveMessageType ?req both_camp) \<and> truthy (v_email bob) \<and>
      requires_sms (effectiveMessageType ?req both_camp) \<and> truthy (v_phone bob) \<and>
      truthy (c_sms_template both_camp)"
    by code_simp
  note t = duplicate_suppression_among_filtered[where db = ?D and cid = camp_id
      and c = both_camp and pp = None
      and req = ?req and vid = jane_id and env = env_ok and meth = "''POST''"
      and c' = both_camp and a = ann and v' = bob, unfolded cid]
  from t[where v = bob] h1 nb have 1: "bob_id \<in> eligible_ids ?D camp_id None" by simp
  from t[where v = jane] h1' h2 have 2: "jane_id \<notin> eligible_ids ?D camp_id None" by simp
  from t[where v = bob] h2 have "\<forall>e\<in>set (new_log_entries ?D
        (fst (snd (serve env_ok ?D ''POST'' ?req)))). lg_visitor_id e \<noteq> jane_id"
    by blast
  then have 3: "jane_id \<notin> lg_visitor_id ` set (new_log_entries ?D
        (fst (snd (serve env_ok ?D ''POST'' ?req))))"
    by auto
  from t[where v = bob] h1 h3 nb have 4: "\<exists>r\<in>set (run_visitors ?D ?req camp_id).
      visitor_id r = bob_id \<and>
      email_message both_camp ann r \<in> set (snd (snd (serve env_ok ?D ''POST'' ?req))) \<and>
      sms_message both_camp ann r \<in> set (snd (snd (serve env_ok ?D ''POST'' ?req)))"
    by auto
  from 1 2 3 4 show ?thesis by blast
qed

text \<open>
  The claim as the specification words it fails: Bob has no entry but a failed one, and
  the resolver leaves him out all the same, because his address is unsubscribed.
\<close>

theorem unsubscribed_excluded_without_log:
  "follow_up_logs ((store camp)\<lparr>unsubscribes := [email_unsubscribe ''bob@example.com''],
                                 follow_up_logs := [log_of bob_id ''failed'']\<rparr>)
     = [log_of bob_id ''failed''] \<and>
   \<not> has_non_failed_log ((store camp)\<lparr>unsubscribes := [email_unsubscribe ''bob@example.com''],
                                 follow_up_logs := [log_of bob_id ''failed'']\<rparr>) camp_id bob_id \<and>
   bob_id \<notin> eligible_ids ((store camp)\<lparr>unsubscribes := [email_unsubscribe ''bob@example.com''],
                                 follow_up_logs := [log_of bob_id ''failed'']\<rparr>) camp_id None"
  by code_simp

text \<open>
  Claim C2, as the code has it. The unsubscribe filter does not look at the campaign.
  No row the resolver returns has an email address carried by an unsubscribe entry of
  type email or both, or a phone number carried by one of type sms or both; a stored
  visitor that passes the other three filters is returned exactly when no such entry
  exists; and changing the message type of the campaigns changes nothing in what the
  resolver returns.
\<close>

theorem unsubscribe_ignores_message_type:
  "(r \<in> set (get_eligible_visitors db cid pp) \<longrightarrow>
      \<not> unsubscribed db (visitor_email r) (visitor_phone r)) \<and>
   (the_campaign db cid c \<and> v \<in> set (visitors db) \<and> in_scope pp c v \<and> trigger_ok c db v \<and>
    \<not> has_non_failed_log db cid (v_id v) \<longrightarrow>
      ((\<exists>r\<in>set (get_eligible_visitors db cid pp).
          visitor_id r = v_id v \<and> visitor_email r = v_email v \<and> visitor_phone r = v_phone v)
       \<longleftrightarrow> \<not> unsubscribed db (v_email v) (v_phone v))) \<and>
   set (get_eligible_visitors
          (db\<lparr>follow_up_campaigns :=
                map (\<lambda>c. c\<lparr>c_message_type := mt\<rparr>) (follow_up_campaigns db)\<rparr>) cid pp) =
   set (get_eligible_visitors db cid pp)"
proof (intro conjI impI)
  assume "r \<in> set (get_eligible_visitors db cid pp)"
  from eligible_row_sound[OF this]
  show "\<not> unsubscribed db (visitor_email r) (visitor_phone r)"
    by (auto simp: eligible_visitor_def)
next
  assume h: "the_campaign db cid c \<and> v \<in> set (visitors db) \<and> in_scope pp c v \<and>
    trigger_ok c db v \<and> \<not> has_non_failed_log db cid (v_id v)"
  show "(\<exists>r\<in>set (get_eligible_visitors db cid pp).
          visitor_id r = v_id v \<and> visitor_email r = v_email v \<and> visitor_phone r = v_phone v)
       \<longleftrightarrow> \<not> unsubscribed db (v_email v) (v_phone v)"
  proof
    assume "\<exists>r\<in>set (get_eligible_visitors db cid pp).
          visitor_id r = v_id v \<and> visitor_email r = v_email v \<and> visitor_phone r = v_phone v"
    then obtain r where r: "r \<in> set (get_eligible_visitors db cid pp)"
        "visitor_email r = v_email v" "visitor_phone r = v_phone v"
      by blast
    from eligible_row_sound[OF r(1)] r(2,3)
    show "\<not> unsubscribed db (v_email v) (v_phone v)"
      by (auto simp: eligible_visitor_def)
  next
    assume "\<not> unsubscribed db (v_email v) (v_phone v)"
    with h have "eligible_visitor db cid pp c v" by (simp add: eligible_visitor_def)
    with h show "\<exists>r\<in>set (get_eligible_visitors db cid pp).
          visitor_id r = v_id v \<and> visitor_email r = v_email v \<and> visitor_phone r = v_phone v"
      using eligible_row_complete[OF _ the_campaign_member[of db cid c]] by blast
  qed
next
  show "set (get_eligible_visitors
          (db\<lparr>follow_up_campaigns :=
                map (\<lambda>c. c\<lparr>c_message_type := mt\<rparr>) (follow_up_campaigns db)\<rparr>) cid pp) =
   set (get_eligible_visitors db cid pp)"
    by (rule message_type_irrelevant)
qed

theorem unsubscribe_ignores_message_type_witness:
  "(\<exists>r\<in>set (get_eligible_visitors
        ((store camp)\<lparr>unsubscribes := [email_unsubscribe ''bob@example.com'']\<rparr>) camp_id None).
      visitor_id r = v_id jane \<and> visitor_email r = v_email jane \<and>
      visitor_phone r = v_phone jane) \<and>
   \<not> (\<exists>r\<in>set (get_eligible_visitors
        ((store camp)\<lparr>unsubscribes := [email_unsubscribe ''bob@example.com'']\<rparr>) camp_id None).
      visitor_id r = v_id bob \<and> visitor_email r = v_email bob \<and>
      visitor_phone r = v_phone bob)"
proof -
  let ?D = "(store camp)\<lparr>unsubscribes := [email_unsubscribe ''bob@example.com'']\<rparr>"
  have hj: "the_campaign ?D camp_id camp \<and> jane \<in> set (visitors ?D) \<and> in_scope None camp jane \<and>
      trigger_ok camp ?D jane \<and> \<not> has_non_failed_log ?D camp_id (v_id jane)"
    by code_simp
  have hb: "the_campaign ?D camp_id camp \<and> bob \<in> set (visitors ?D) \<and> in_scope None camp bob \<and>
      trigger_ok camp ?D bob \<and> \<not> has_non_failed_log ?D camp_id (v_id bob)"
    by code_simp
  have uj: "\<not> unsubscribed ?D (v_email jane) (v_phone jane)"
    by code_simp
  have ub: "unsubscribed ?D (v_email bob) (v_phone bob)"
    by code_simp
  from unsubscribe_ignores_message_type[where db = ?D and cid = camp_id and pp = None and c = camp and v = jane] hj uj
    unsubscribe_ignores_message_type[where db = ?D and cid = camp_id and pp = None and c = camp and v = bob] hb ub
  show ?thesis by blast
qed

text \<open>
  The claim as the specification words it fails: Bob, unsubscribed from email only,
  is left out of an sms campaign, and a campaign on both channels sends him nothing,
  though he has a phone number that nobody unsubscribed.
\<close>

theorem email_unsubscribe_blocks_sms:
  "c_message_type (camp\<lparr>c_message_type := ''sms'', c_sms_template := Some ''Hi {{visitor_name}}''\<rparr>)
     = ''sms'' \<and>
   unsubscribes ((store (camp\<lparr>c_message_type := ''sms'',
                               c_sms_template := Some ''Hi {{visitor_name}}''\<rparr>))
                  \<lparr>unsubscribes := [email_unsubscribe ''bob@example.com'']\<rparr>)
     = [email_unsubscribe ''bob@example.com''] \<and>
   bob_id \<notin> eligible_ids
     ((store (camp\<lparr>c_message_type := ''sms'', c_sms_template := Some ''Hi {{visitor_name}}''\<rparr>))
        \<lparr>unsubscribes := [email_unsubscribe ''bob@example.com'']\<rparr>) camp_id None \<and>
   snd (snd (serve env_ok
     ((store (camp\<lparr>c_message_type := ''both'', c_sms_template := Some ''Hi {{visitor_name}}''\<rparr>))
        \<lparr>unsubscribes := [email_unsubscribe ''bob@example.com'']\<rparr>) ''POST'' (request None)))
     = [Email ''jane@example.com'' ''Hi Jane'' ''<p>Thanks, Jane</p>'' ''Thanks, Jane'' None]"
  by code_simp

text \<open>
  Claim C3. For a stored campaign, the ids the resolver returns are those of the stored
  visitors within the property scope that are neither unsubscribed nor already sent
  the campaign and, when the trigger condition is interested, have a feedback record
  with interested true; when it is no_feedback, have no feedback record; when it is all
  or manual, with no further condition.
\<close>

theorem trigger_filter_exact:
  assumes "the_campaign db cid c"
  shows
  "(c_trigger_condition c = ''interested'' \<longrightarrow>
      eligible_ids db cid pp =
        v_id ` {v \<in> set (visitors db). in_scope pp c v \<and> has_interested_feedback db v \<and>
                  \<not> unsubscribed db (v_email v) (v_phone v) \<and>
                  \<not> has_non_failed_log db cid (v_id v)}) \<and>
   (c_trigger_condition c = ''no_feedback'' \<longrightarrow>
      eligible_ids db cid pp =
        v_id ` {v \<in> set (visitors db). in_scope pp c v \<and> \<not> has_feedback_row db v \<and>
                  \<not> unsubscribed db (v_email v) (v_phone v) \<and>
                  \<not> has_non_failed_log db cid (v_id v)}) \<and>
   (c_trigger_condition c = ''all'' \<or> c_trigger_condition c = ''manual'' \<longrightarrow>
      eligible_ids db cid pp =
        v_id ` {v \<in> set (visitors db). in_scope pp c v \<and>
                  \<not> unsubscribed db (v_email v) (v_phone v) \<and>
                  \<not> has_non_failed_log db cid (v_id v)})"
  unfolding eligible_ids_eq[OF assms] eligible_visitor_def trigger_ok_def
  by auto

theorem trigger_filter_exact_witness:
  "eligible_ids ((store (camp\<lparr>c_trigger_condition := ''interested''\<rparr>))\<lparr>feedback := [jane_feedback]\<rparr>)
     camp_id None = {jane_id} \<and>
   eligible_ids ((store (camp\<lparr>c_trigger_condition := ''no_feedback''\<rparr>))\<lparr>feedback := [jane_feedback]\<rparr>)
     camp_id None = {bob_id} \<and>
   eligible_ids ((store camp)\<lparr>feedback := [jane_feedback]\<rparr>) camp_id None = {jane_id, bob_id}"
proof -
  let ?ci = "camp\<lparr>c_trigger_condition := ''interested''\<rparr>"
  let ?cn = "camp\<lparr>c_trigger_condition := ''no_feedback''\<rparr>"
  let ?di = "(store ?ci)\<lparr>feedback := [jane_feedback]\<rparr>"
  let ?dn = "(store ?cn)\<lparr>feedback := [jane_feedback]\<rparr>"
  let ?da = "(store camp)\<lparr>feedback := [jane_feedback]\<rparr>"
  have hi: "the_campaign ?di camp_id ?ci" "c_trigger_condition ?ci = ''interested''"
    by code_simp+
  have hn: "the_campaign ?dn camp_id ?cn" "c_trigger_condition ?cn = ''no_feedback''"
    by code_simp+
  have ha: "the_campaign ?da camp_id camp"
    "c_trigger_condition camp = ''all'' \<or> c_trigger_condition camp = ''manual''"
    by code_simp+
  have vi: "v_id ` {v \<in> set (visitors ?di). in_scope None ?ci v \<and> has_interested_feedback ?di v \<and>
                  \<not> unsubscribed ?di (v_email v) (v_phone v) \<and>
                  \<not> has_non_failed_log ?di camp_id (v_id v)} = {jane_id}"
    by code_simp
  have vn: "v_id ` {v \<in> set (visitors ?dn). in_scope None ?cn v \<and> \<not> has_feedback_row ?dn v \<and>
                  \<not> unsubscribed ?dn (v_email v) (v_phone v) \<and>
                  \<not> has_non_failed_log ?dn camp_id (v_id v)} = {bob_id}"
    by code_simp
  have va: "v_id ` {v \<in> set (visitors ?da). in_scope None camp v \<and>
                  \<not> unsubscribed ?da (v_email v) (v_phone v) \<and>
                  \<not> has_non_failed_log ?da camp_id (v_id v)} = {jane_id, bob_id}"
    by code_simp
  from trigger_filter_exact[OF hi(1), of None] hi(2) vi
  have 1: "eligible_ids ?di camp_id None = {jane_id}" by simp
  from trigger_filter_exact[OF hn(1), of None] hn(2) vn
  have 2: "eligible_ids ?dn camp_id None = {bob_id}" by simp
  from trigger_filter_exact[OF ha(1), of None] ha(2) va
  have 3: "eligible_ids ?da camp_id None = {jane_id, bob_id}" by simp
  from 1 2 3 show ?thesis by simp
qed

section \<open>The claims about the orchestrator\<close>

text \<open>
  Claim C5, as the code has it. A list of ids that is not empty narrows the visitors
  of the run to the rows of the resolver whose id is in the list. An empty list is
  treated as no list at all: the run takes every row of the resolver. Either way the
  loop runs over these visitors only, and every entry it adds to the log is one of them.
\<close>

theorem explicit_ids_narrow_unless_empty:
  "(visitorIds req = Some ids \<and> ids \<noteq> [] \<longrightarrow>
      run_visitors db req cid =
        filter (\<lambda>r. visitor_id r \<in> set ids) (get_eligible_visitors db cid (propertyId req)) \<and>
      visitor_id ` set (run_visitors db req cid) =
        eligible_ids db cid (propertyId req) \<inter> set ids) \<and>
   (visitorIds req = None \<or> visitorIds req = Some [] \<longrightarrow>
      run_visitors db req cid = get_eligible_visitors db cid (propertyId req)) \<and>
   (\<forall>e\<in>set (new_log_entries db (fst (snd (serve env db meth req)))).
      lg_visitor_id e \<in> visitor_id ` set (run_visitors db req (js_string (campaignId req)))) \<and>
   (meth \<noteq> ''OPTIONS'' \<and> serve_ready env db req c a \<longrightarrow>
      snd (snd (serve env db meth req)) =
        st_outbox (foldl (process_visitor env req c a (js_string (campaignId req)))
          (initial_state db) (run_visitors db req (js_string (campaignId req)))))"
proof (intro conjI impI)
  assume h: "visitorIds req = Some ids \<and> ids \<noteq> []"
  then show "run_visitors db req cid =
        filter (\<lambda>r. visitor_id r \<in> set ids) (get_eligible_visitors db cid (propertyId req))"
    by (simp add: run_visitors_def has_visitorIds_def)
  then show "visitor_id ` set (run_visitors db req cid) =
        eligible_ids db cid (propertyId req) \<inter> set ids"
    by (auto simp: eligible_ids_def)
next
  assume "visitorIds req = None \<or> visitorIds req = Some []"
  then show "run_visitors db req cid = get_eligible_visitors db cid (propertyId req)"
    by (auto simp: run_visitors_def has_visitorIds_def)
next
  show "\<forall>e\<in>set (new_log_entries db (fst (snd (serve env db meth req)))).
      lg_visitor_id e \<in> visitor_id ` set (run_visitors db req (js_string (campaignId req)))"
    using serve_new_logs[of db env meth req] by (simp add: good_entry_def)
next
  assume "meth \<noteq> ''OPTIONS'' \<and> serve_ready env db req c a"
  then show "snd (snd (serve env db meth req)) =
        st_outbox (foldl (process_visitor env req c a (js_string (campaignId req)))
          (initial_state db) (run_visitors db req (js_string (campaignId req))))"
    by (intro serve_outbox) simp_all
qed

theorem explicit_ids_narrow_unless_empty_witness:
  "eligible_ids (store camp) camp_id None = {jane_id, bob_id} \<and>
   visitor_id ` set (run_visitors (store camp) (request (Some [jane_id])) camp_id) =
     eligible_ids (store camp) camp_id (propertyId (request (Some [jane_id]))) \<inter> set [jane_id] \<and>
   run_visitors (store camp) (request None) camp_id =
     get_eligible_visitors (store camp) camp_id (propertyId (request None)) \<and>
   snd (snd (serve env_ok (store camp) ''POST'' (request (Some [jane_id])))) =
     st_outbox (foldl (process_visitor env_ok (request (Some [jane_id])) camp ann
                  (js_string (campaignId (request (Some [jane_id])))))
          (initial_state (store camp))
          (run_visitors (store camp) (request (Some [jane_id]))
             (js_string (campaignId (request (Some [jane_id]))))))"
proof -
  have e: "eligible_ids (store camp) camp_id None = {jane_id, bob_id}"
    by code_simp
  have h1: "visitorIds (request (Some [jane_id])) = Some [jane_id] \<and> [jane_id] \<noteq> []"
    by code_simp
  have h2: "visitorIds (request None) = None \<or> visitorIds (request None) = Some []"
    by code_simp
  have h3: "''POST'' \<noteq> ''OPTIONS'' \<and>
      serve_ready env_ok (store camp) (request (Some [jane_id])) camp ann"
    by code_simp
  from explicit_ids_narrow_unless_empty[where req = "request (Some [jane_id])" and ids = "[jane_id]" and db = "store camp"
      and cid = camp_id and env = env_ok and meth = "''POST''" and c = camp and a = ann] h1 h3
    explicit_ids_narrow_unless_empty[where req = "request None" and db = "store camp" and cid = camp_id] h2 e
  show ?thesis by blast
qed

text \<open>
  The claim as the specification words it fails for the empty list: the intersection
  with no id is empty, yet the run writes to both eligible visitors.
\<close>

theorem empty_id_list_sends_to_all:
  "visitorIds (request (Some [])) = Some [] \<and>
   eligible_ids (store camp) camp_id None \<inter> set [] = {} \<and>
   visitor_id ` set (run_visitors (store camp) (request (Some [])) camp_id) = {jane_id, bob_id} \<and>
   snd (snd (serve env_ok (store camp) ''POST'' (request (Some [])))) =
     [Email ''jane@example.com'' ''Hi Jane'' ''<p>Thanks, Jane</p>'' ''Thanks, Jane'' None,
      Email ''bob@example.com'' ''Hi Bob'' ''<p>Thanks, Bob</p>'' ''Thanks, Bob'' None]"
  by code_simp

text \<open>
  Claim C7, as the code has it. The entries that a run adds to the log, once it has
  found the campaign and its admin and got the resolver's rows, are those of the rows,
  row after row, and the entries of one visitor are those of the rows of that visitor. When the effective type is both, a row with an email address and
  no phone number makes one call of the email provider, counted once, and hands
  exactly one entry to the log, of channel email and status sent or failed; the log
  holds it afterwards unless the store rejects it. So the run adds exactly that one
  entry for the visitor when the resolver returns one row for the visitor and the
  store accepts the entry. Whatever the type, a row without a phone number, or a
  campaign without an sms template, gives no entry of channel sms and makes the sms
  branch do nothing: the step is the email branch alone.
\<close>

theorem both_without_phone_entry_per_row:
  "(meth \<noteq> ''OPTIONS'' \<and> serve_ready env db req c a \<longrightarrow>
      new_log_entries db (fst (snd (serve env db meth req))) =
        concat (map (row_entries env db req c a (js_string (campaignId req)))
                  (run_visitors db req (js_string (campaignId req)))) \<and>
      entries_of vid (new_log_entries db (fst (snd (serve env db meth req)))) =
        concat (map (row_entries env db req c a (js_string (campaignId req)))
                  (rows_of vid (run_visitors db req (js_string (campaignId req)))))) \<and>
   (effectiveMessageType req c = ''both'' \<and> truthy (visitor_email r) \<and>
    \<not> truthy (visitor_phone r) \<longrightarrow>
      row_entries env db req c a cid r =
        (if insert_error env (email_log_entry env db c a cid r) then []
         else [email_log_entry env db c a cid r]) \<and>
      lg_message_type (email_log_entry env db c a cid r) = ''email'' \<and>
      lg_visitor_id (email_log_entry env db c a cid r) = visitor_id r \<and>
      lg_campaign_id (email_log_entry env db c a cid r) = Some cid \<and>
      (lg_status (email_log_entry env db c a cid r) = Some ''sent'' \<or>
       lg_status (email_log_entry env db c a cid r) = Some ''failed'') \<and>
      st_outbox (process_visitor env req c a cid st r) = st_outbox st @ [email_message c a r] \<and>
      counted (process_visitor env req c a cid st r) = counted st + 1) \<and>
   (meth \<noteq> ''OPTIONS'' \<and> serve_ready env db req c a \<and>
    effectiveMessageType req c = ''both'' \<and>
    rows_of (visitor_id r) (run_visitors db req (js_string (campaignId req))) = [r] \<and>
    truthy (visitor_email r) \<and> \<not> truthy (visitor_phone r) \<and>
    \<not> insert_error env (email_log_entry env db c a (js_string (campaignId req)) r) \<longrightarrow>
      entries_of (visitor_id r) (new_log_entries db (fst (snd (serve env db meth req)))) =
        [email_log_entry env db c a (js_string (campaignId req)) r]) \<and>
   (\<not> truthy (visitor_phone r) \<or> \<not> truthy (c_sms_template c) \<longrightarrow>
      ''sms'' \<notin> lg_message_type ` set (row_entries env db req c a cid r) \<and>
      process_visitor env req c a cid st r = send_email_step env req c a cid r st)"
proof -
  let ?cid = "js_string (campaignId req)"
  let ?db' = "fst (snd (serve env db meth req))"
  have run: "new_log_entries db ?db' =
        concat (map (row_entries env db req c a ?cid) (run_visitors db req ?cid))"
    if "meth \<noteq> ''OPTIONS'' \<and> serve_ready env db req c a"
    using that by (intro serve_new_entries) simp_all
  have per_visitor: "entries_of w (new_log_entries db ?db') =
        concat (map (row_entries env db req c a ?cid) (rows_of w (run_visitors db req ?cid)))"
    if "meth \<noteq> ''OPTIONS'' \<and> serve_ready env db req c a" for w
    unfolding run[OF that] by (rule entries_of_rows)
  have row: "row_entries env db req c a i r =
        (if insert_error env (email_log_entry env db c a i r) then []
         else [email_log_entry env db c a i r])"
    if "effectiveMessageType req c = ''both'' \<and> truthy (visitor_email r) \<and>
        \<not> truthy (visitor_phone r)" for i
    using that by (simp add: row_entries_def requires_email_def)
  have entry: "lg_message_type (email_log_entry env db c a cid r) = ''email''"
    "lg_visitor_id (email_log_entry env db c a cid r) = visitor_id r"
    "lg_campaign_id (email_log_entry env db c a cid r) = Some cid"
    "lg_status (email_log_entry env db c a cid r) = Some ''sent'' \<or>
     lg_status (email_log_entry env db c a cid r) = Some ''failed''"
    by (simp_all add: email_log_entry_def)
  have skip: "process_visitor env req c a cid st r = send_email_step env req c a cid r st"
    if "\<not> truthy (visitor_phone r) \<or> \<not> truthy (c_sms_template c)"
    unfolding process_visitor_def using that by (intro send_sms_step_skip) auto
  have step: "st_outbox (process_visitor env req c a cid st r) =
        st_outbox st @ [email_message c a r]"
      "counted (process_visitor env req c a cid st r) = counted st + 1"
    if h: "effectiveMessageType req c = ''both'' \<and> truthy (visitor_email r) \<and>
        \<not> truthy (visitor_phone r)"
  proof -
    have p: "process_visitor env req c a cid st r =
       \<lparr>st_db = logFollowUp env (st_db st) (email_log_entry env (st_db st) c a cid r),
        st_results = count_result ''Email'' (js_string (visitor_email r))
                           (emailResult env c a r) (st_results st),
        st_outbox = st_outbox st @ [email_message c a r]\<rparr>"
      using h skip by (simp add: send_email_step_send requires_email_def)
    show "st_outbox (process_visitor env req c a cid st r) =
        st_outbox st @ [email_message c a r]"
      unfolding p by simp
    show "counted (process_visitor env req c a cid st r) = counted st + 1"
      unfolding p by (simp add: counted_def counted_count_result)
  qed
  have one: "entries_of (visitor_id r) (new_log_entries db ?db') =
        [email_log_entry env db c a ?cid r]"
    if h: "meth \<noteq> ''OPTIONS'' \<and> serve_ready env db req c a \<and>
      effectiveMessageType req c = ''both'' \<and>
      rows_of (visitor_id r) (run_visitors db req ?cid) = [r] \<and>
      truthy (visitor_email r) \<and> \<not> truthy (visitor_phone r) \<and>
      \<not> insert_error env (email_log_entry env db c a ?cid r)"
  proof -
    from h have a: "meth \<noteq> ''OPTIONS'' \<and> serve_ready env db req c a"
      and b: "effectiveMessageType req c = ''both'' \<and> truthy (visitor_email r) \<and>
        \<not> truthy (visitor_phone r)"
      and rs: "rows_of (visitor_id r) (run_visitors db req ?cid) = [r]"
      and ok: "\<not> insert_error env (email_log_entry env db c a ?cid r)"
      by simp_all
    show ?thesis
      unfolding per_visitor[OF a] rs using row[OF b, of ?cid] ok by simp
  qed
  have no_sms: "''sms'' \<notin> lg_message_type ` set (row_entries env db req c a cid r)"
    if "\<not> truthy (visitor_phone r) \<or> \<not> truthy (c_sms_template c)"
    using that by (auto simp: row_entries_def email_log_entry_def)
  from run per_visitor row entry step one no_sms skip show ?thesis
    by blast
qed

theorem both_without_phone_entry_per_row_witness:
  "new_log_entries (store both_camp)
       (fst (snd (serve env_ok (store both_camp) ''POST'' (request (Some [jane_id]))))) =
     [email_log_entry env_ok (store both_camp) both_camp ann camp_id jane_row] \<and>
   entries_of jane_id (new_log_entries (store both_camp)
       (fst (snd (serve env_ok (store both_camp) ''POST'' (request None))))) =
     [email_log_entry env_ok (store both_camp) both_camp ann camp_id jane_row] \<and>
   lg_status (email_log_entry env_ok (store both_camp) both_camp ann camp_id jane_row)
     = Some ''sent'' \<and>
   st_outbox (process_visitor env_ok (request None) both_camp ann camp_id
       (initial_state (store both_camp)) jane_row) = [email_message both_camp ann jane_row] \<and>
   counted (process_visitor env_ok (request None) both_camp ann camp_id
       (initial_state (store both_camp)) jane_row) = 1 \<and>
   ''sms'' \<notin> lg_message_type ` set (row_entries env_ok (store both_camp) (request None)
       both_camp ann camp_id jane_row) \<and>
   process_visitor env_ok (request None) both_camp ann camp_id
       (initial_state (store both_camp)) jane_row =
     send_email_step env_ok (request None) both_camp ann camp_id jane_row
       (initial_state (store both_camp))"
proof -
  let ?st = "initial_state (store both_camp)"
  let ?e = "email_log_entry env_ok (store both_camp) both_camp ann camp_id jane_row"
  let ?one = "request (Some [jane_id])"
  have cid: "js_string (campaignId (request None)) = camp_id"
    "js_string (campaignId ?one) = camp_id" "visitor_id jane_row = jane_id"
    by (simp_all add: request_def js_string_def jane_row_def)
  have h: "effectiveMessageType (request None) both_camp = ''both'' \<and>
      truthy (visitor_email jane_row) \<and> \<not> truthy (visitor_phone jane_row)"
    by code_simp
  have s: "''POST'' \<noteq> ''OPTIONS'' \<and> serve_ready env_ok (store both_camp) (request None) both_camp ann"
    "''POST'' \<noteq> ''OPTIONS'' \<and> serve_ready env_ok (store both_camp) ?one both_camp ann"
    by code_simp+
  have rs: "rows_of jane_id (run_visitors (store both_camp) (request None) camp_id) = [jane_row]"
    "run_visitors (store both_camp) ?one camp_id = [jane_row]"
    by code_simp+
  have ok: "\<not> insert_error env_ok ?e"
    by (simp add: env_ok_def)
  have i: "st_outbox ?st = []" "counted ?st = 0"
    by (simp_all add: initial_state_def counted_def)
  have st: "lg_status ?e = Some ''sent''"
    by (simp add: email_log_entry_def emailResult_def env_ok_def send_ok_def)
  note t = both_without_phone_entry_per_row[where env = env_ok and db = "store both_camp"
      and meth = "''POST''" and c = both_camp and a = ann and r = jane_row and cid = camp_id
      and st = ?st and vid = jane_id]
  have h': "effectiveMessageType ?one both_camp = ''both'' \<and>
      truthy (visitor_email jane_row) \<and> \<not> truthy (visitor_phone jane_row)"
    by code_simp
  from t[where req = ?one] h'
  have "row_entries env_ok (store both_camp) ?one both_camp ann camp_id jane_row =
      (if insert_error env_ok ?e then [] else [?e])"
    by blast
  then have row: "row_entries env_ok (store both_camp) ?one both_camp ann camp_id jane_row = [?e]"
    using ok by simp
  from t[where req = ?one, unfolded cid] s(2)
  have "new_log_entries (store both_camp)
       (fst (snd (serve env_ok (store both_camp) ''POST'' ?one))) =
     concat (map (row_entries env_ok (store both_camp) ?one both_camp ann camp_id)
       (run_visitors (store both_camp) ?one camp_id))"
    by blast
  then have 1: "new_log_entries (store both_camp)
       (fst (snd (serve env_ok (store both_camp) ''POST'' ?one))) = [?e]"
    unfolding rs(2) using row by simp
  from t[where req = "request None", unfolded cid] s(1) h rs(1) ok
  have 2: "entries_of jane_id (new_log_entries (store both_camp)
       (fst (snd (serve env_ok (store both_camp) ''POST'' (request None))))) = [?e]"
    by blast
  from t[where req = "request None"] h
  have "st_outbox (process_visitor env_ok (request None) both_camp ann camp_id ?st jane_row) =
      st_outbox ?st @ [email_message both_camp ann jane_row]"
    "counted (process_visitor env_ok (request None) both_camp ann camp_id ?st jane_row) =
      counted ?st + 1"
    by blast+
  then have 3: "st_outbox (process_visitor env_ok (request None) both_camp ann camp_id ?st
        jane_row) = [email_message both_camp ann jane_row]"
    "counted (process_visitor env_ok (request None) both_camp ann camp_id ?st jane_row) = 1"
    by (simp_all add: i)
  from t[where req = "request None"] h
  have 4: "''sms'' \<notin> lg_message_type ` set (row_entries env_ok (store both_camp) (request None)
       both_camp ann camp_id jane_row)"
    "process_visitor env_ok (request None) both_camp ann camp_id ?st jane_row =
     send_email_step env_ok (request None) both_camp ann camp_id jane_row ?st"
    by blast+
  from 1 2 st 3 4 show ?thesis by blast
qed

text \<open>
  The claim as the specification words it fails. Jane has an email address and no
  phone number, and the campaign is on both channels. With two feedback records of
  hers in the store the resolver returns her twice, and one dispatch sends her two
  emails and writes two entries. With a store that rejects her entries, the dispatch
  sends her the email, answers with success and writes no entry.
\<close>

theorem two_feedback_records_two_entries:
  "effectiveMessageType (request (Some [jane_id])) both_camp = ''both'' \<and>
   truthy (v_email jane) \<and> \<not> truthy (v_phone jane) \<and>
   map lg_visitor_id (new_log_entries
       ((store both_camp)\<lparr>feedback := [jane_feedback, jane_feedback_again]\<rparr>)
       (fst (snd (serve env_ok
          ((store both_camp)\<lparr>feedback := [jane_feedback, jane_feedback_again]\<rparr>)
          ''POST'' (request (Some [jane_id])))))) = [jane_id, jane_id] \<and>
   map lg_message_type (new_log_entries
       ((store both_camp)\<lparr>feedback := [jane_feedback, jane_feedback_again]\<rparr>)
       (fst (snd (serve env_ok
          ((store both_camp)\<lparr>feedback := [jane_feedback, jane_feedback_again]\<rparr>)
          ''POST'' (request (Some [jane_id])))))) = [''email'', ''email''] \<and>
   map lg_status (new_log_entries
       ((store both_camp)\<lparr>feedback := [jane_feedback, jane_feedback_again]\<rparr>)
       (fst (snd (serve env_ok
          ((store both_camp)\<lparr>feedback := [jane_feedback, jane_feedback_again]\<rparr>)
          ''POST'' (request (Some [jane_id])))))) = [Some ''sent'', Some ''sent''] \<and>
   fst (serve env_log_down (store both_camp) ''POST'' (request (Some [jane_id])))
     = Processed 1 0 [] 1 \<and>
   new_log_entries (store both_camp)
     (fst (snd (serve env_log_down (store both_camp) ''POST'' (request (Some [jane_id]))))) = []"
  by code_simp

text \<open>
  Claim C8, as the code has it. There is no configuration error. A run fails only
  with the error thrown before the request is read, for a missing campaign id, for a
  campaign or admin that is not found, or with the error of the resolver's call. For
  a campaign whose trigger condition is none of the four, the resolver returns
  nothing and the run answers with success, no message and an unchanged store. A
  missing email subject or template is rendered as the empty string, and a missing
  sms template makes the sms branch do nothing, for every visitor; either way the run
  goes on: it answers with success and calls the email provider for every visitor
  with an address when the effective type is email or both.
\<close>

theorem no_invalid_configuration_error:
  "(meth \<noteq> ''OPTIONS'' \<and> serve_ready env db req c a \<and>
    c_trigger_condition c \<notin> {''interested'', ''all'', ''no_feedback'', ''manual''} \<longrightarrow>
      serve env db meth req = (NoEligibleVisitors, db, [])) \<and>
   serve_incoming env db meth (Parsed req) = serve env db meth req \<and>
   (fst (serve_incoming env db meth inc) = Failure msg \<longrightarrow>
      inc = Thrown msg \<or> msg = ''Campaign ID is required'' \<or> msg = ''Campaign not found'' \<or>
      msg = ''Admin not found'' \<or> rpc_error env = Some msg) \<and>
   (\<not> truthy (c_email_subject c') \<longrightarrow> email_subject c' a' r' = []) \<and>
   (\<not> truthy (c_email_template c') \<longrightarrow> email_htmlContent c' a' r' = []) \<and>
   (\<not> truthy (c_sms_template c') \<longrightarrow>
      send_sms_step env req c' a' cid r' st = st \<and>
      process_visitor env req c' a' cid st r' = send_email_step env req c' a' cid r' st \<and>
      ''sms'' \<notin> lg_message_type ` set (row_entries env db req c' a' cid r')) \<and>
   (meth \<noteq> ''OPTIONS'' \<and> serve_ready env db req c a \<and>
    r \<in> set (run_visitors db req (js_string (campaignId req))) \<longrightarrow>
      response_success (fst (serve env db meth req)) \<and>
      (requires_email (effectiveMessageType req c) \<and> truthy (visitor_email r) \<longrightarrow>
         email_message c a r \<in> set (snd (snd (serve env db meth req)))))"
proof (intro conjI impI)
  let ?cid = "js_string (campaignId req)"
  assume h: "meth \<noteq> ''OPTIONS'' \<and> serve_ready env db req c a \<and>
    c_trigger_condition c \<notin> {''interested'', ''all'', ''no_feedback'', ''manual''}"
  then have tc: "the_campaign db ?cid c" by (simp add: serve_ready_def)
  have "\<forall>c'\<in>set (follow_up_campaigns db). c_id c' = ?cid \<longrightarrow>
          c_trigger_condition c' \<notin> {''interested'', ''no_feedback'', ''all'', ''manual''}"
  proof (intro ballI impI)
    fix c' assume "c' \<in> set (follow_up_campaigns db)" "c_id c' = ?cid"
    then have "campaign_match db ?cid (Some c')" by (simp add: campaign_match_def)
    then have "c' = c" using the_campaign_match[OF tc] by simp
    with h show "c_trigger_condition c' \<notin> {''interested'', ''no_feedback'', ''all'', ''manual''}"
      by simp
  qed
  then have "get_eligible_visitors db ?cid (propertyId req) = []"
    by (rule no_campaign_no_rows)
  then have "run_visitors db req ?cid = []"
    by (simp add: run_visitors_def)
  with h show "serve env db meth req = (NoEligibleVisitors, db, [])"
    by (simp add: serve_loop[of meth env db req c a])
next
  show "serve_incoming env db meth (Parsed req) = serve env db meth req"
    by (simp add: serve_incoming_def serve_def)
next
  assume "fst (serve_incoming env db meth inc) = Failure msg"
  then show "inc = Thrown msg \<or> msg = ''Campaign ID is required'' \<or>
      msg = ''Campaign not found'' \<or> msg = ''Admin not found'' \<or> rpc_error env = Some msg"
    by (rule serve_incoming_failures)
next
  assume "\<not> truthy (c_email_subject c')"
  then have "or_empty (c_email_subject c') = []"
    by (auto simp: truthy_def or_empty_def split: option.splits)
  then show "email_subject c' a' r' = []"
    by (simp add: email_subject_def render_empty_template templateVariables_plain)
next
  assume "\<not> truthy (c_email_template c')"
  then have "or_empty (c_email_template c') = []"
    by (auto simp: truthy_def or_empty_def split: option.splits)
  then show "email_htmlContent c' a' r' = []"
    by (simp add: email_htmlContent_def render_empty_template templateVariables_plain)
next
  assume h: "\<not> truthy (c_sms_template c')"
  then show s: "send_sms_step env req c' a' cid r' st = st"
    by (intro send_sms_step_skip) simp
  from h show "process_visitor env req c' a' cid st r' = send_email_step env req c' a' cid r' st"
    unfolding process_visitor_def by (intro send_sms_step_skip) simp
  from h show "''sms'' \<notin> lg_message_type ` set (row_entries env db req c' a' cid r')"
    by (auto simp: row_entries_def email_log_entry_def)
next
  assume h: "meth \<noteq> ''OPTIONS'' \<and> serve_ready env db req c a \<and>
    r \<in> set (run_visitors db req (js_string (campaignId req)))"
  then obtain s f es n where "fst (serve env db meth req) = Processed s f es n"
    using serve_processed[of meth env db req c a r] by blast
  then show "response_success (fst (serve env db meth req))" by simp
next
  assume h: "meth \<noteq> ''OPTIONS'' \<and> serve_ready env db req c a \<and>
    r \<in> set (run_visitors db req (js_string (campaignId req)))"
    and e: "requires_email (effectiveMessageType req c) \<and> truthy (visitor_email r)"
  have out: "snd (snd (serve env db meth req)) =
     st_outbox (foldl (process_visitor env req c a (js_string (campaignId req)))
       (initial_state db) (run_visitors db req (js_string (campaignId req))))"
    using h by (intro serve_outbox) simp_all
  show "email_message c a r \<in> set (snd (snd (serve env db meth req)))"
    unfolding out using h e by (intro foldl_outbox_email) simp_all
qed

theorem no_invalid_configuration_error_witness:
  "serve env_ok (store (camp\<lparr>c_trigger_condition := ''bogus''\<rparr>)) ''POST'' (request None) =
     (NoEligibleVisitors, store (camp\<lparr>c_trigger_condition := ''bogus''\<rparr>), []) \<and>
   fst (serve_incoming env_ok (store camp) ''POST'' (Thrown ''Unexpected end of JSON input'')) =
     Failure ''Unexpected end of JSON input'' \<and>
   fst (serve_incoming env_ok (store camp) ''POST''
          (Parsed ((request None)\<lparr>campaignId := None\<rparr>))) =
     Failure ''Campaign ID is required'' \<and>
   email_subject (camp\<lparr>c_email_subject := None\<rparr>) ann jane_row = [] \<and>
   email_htmlContent (camp\<lparr>c_email_template := Some []\<rparr>) ann jane_row = [] \<and>
   send_sms_step env_ok ((request None)\<lparr>messageType := Some ''sms''\<rparr>) camp ann camp_id bob_row
       (initial_state (store camp)) = initial_state (store camp) \<and>
   response_success (fst (serve env_ok (store camp) ''POST'' (request None))) \<and>
   email_message camp ann jane_row \<in> set (snd (snd (serve env_ok (store camp) ''POST'' (request None))))"
proof -
  let ?cb = "camp\<lparr>c_trigger_condition := ''bogus''\<rparr>"
  let ?none = "(request None)\<lparr>campaignId := None\<rparr>"
  have h1: "''POST'' \<noteq> ''OPTIONS'' \<and> serve_ready env_ok (store ?cb) (request None) ?cb ann \<and>
    c_trigger_condition ?cb \<notin> {''interested'', ''all'', ''no_feedback'', ''manual''}"
    by code_simp
  have h2: "fst (serve_incoming env_ok (store camp) ''POST''
        (Thrown ''Unexpected end of JSON input'')) = Failure ''Unexpected end of JSON input''"
    by code_simp
  have h2': "fst (serve env_ok (store camp) ''POST'' ?none) = Failure ''Campaign ID is required''"
    by code_simp
  have h3: "\<not> truthy (c_email_subject (camp\<lparr>c_email_subject := None\<rparr>))"
    "\<not> truthy (c_email_template (camp\<lparr>c_email_template := Some []\<rparr>))"
    "\<not> truthy (c_sms_template camp)"
    by code_simp+
  have h4: "''POST'' \<noteq> ''OPTIONS'' \<and> serve_ready env_ok (store camp) (request None) camp ann \<and>
    jane_row \<in> set (run_visitors (store camp) (request None)
                      (js_string (campaignId (request None))))"
    by code_simp
  have h5: "requires_email (effectiveMessageType (request None) camp) \<and>
    truthy (visitor_email jane_row)"
    by code_simp
  from no_invalid_configuration_error[where meth = "''POST''" and env = env_ok and db = "store ?cb"
      and req = "request None" and c = ?cb and a = ann] h1
  have 1: "serve env_ok (store ?cb) ''POST'' (request None) = (NoEligibleVisitors, store ?cb, [])"
    by blast
  from no_invalid_configuration_error[where meth = "''POST''" and env = env_ok and db = "store camp"
      and req = ?none]
  have "serve_incoming env_ok (store camp) ''POST'' (Parsed ?none) =
        serve env_ok (store camp) ''POST'' ?none"
    by blast
  with h2' have 2: "fst (serve_incoming env_ok (store camp) ''POST'' (Parsed ?none)) =
        Failure ''Campaign ID is required''"
    by simp
  from no_invalid_configuration_error[where c' = "camp\<lparr>c_email_subject := None\<rparr>" and a' = ann and r' = jane_row] h3(1)
  have 3: "email_subject (camp\<lparr>c_email_subject := None\<rparr>) ann jane_row = []"
    by blast
  from no_invalid_configuration_error[where c' = "camp\<lparr>c_email_template := Some []\<rparr>" and a' = ann and r' = jane_row]
    h3(2)
  have 4: "email_htmlContent (camp\<lparr>c_email_template := Some []\<rparr>) ann jane_row = []"
    by blast
  from no_invalid_configuration_error[where c' = camp and a' = ann and r' = bob_row
      and env = env_ok and req = "(request None)\<lparr>messageType := Some ''sms''\<rparr>"
      and cid = camp_id and st = "initial_state (store camp)"] h3(3)
  have 5: "send_sms_step env_ok ((request None)\<lparr>messageType := Some ''sms''\<rparr>) camp ann camp_id
       bob_row (initial_state (store camp)) = initial_state (store camp)"
    by blast
  from no_invalid_configuration_error[where meth = "''POST''" and env = env_ok and db = "store camp"
      and req = "request None" and c = camp and a = ann and r = jane_row] h4 h5
  have 6: "response_success (fst (serve env_ok (store camp) ''POST'' (request None))) \<and>
   email_message camp ann jane_row \<in> set (snd (snd (serve env_ok (store camp) ''POST'' (request None))))"
    by blast
  from 1 h2 2 3 4 5 6 show ?thesis by blast
qed

text \<open>
  The claim as the specification words it fails: an unknown trigger condition gives a
  success answer, a campaign without subject and template sends an empty email, and
  an sms campaign without sms template answers with success after sending nothing.
\<close>

theorem bad_configuration_reports_success:
  "serve env_ok (store (camp\<lparr>c_trigger_condition := ''bogus''\<rparr>)) ''POST'' (request None) =
     (NoEligibleVisitors, store (camp\<lparr>c_trigger_condition := ''bogus''\<rparr>), []) \<and>
   response_success NoEligibleVisitors \<and>
   fst (serve env_ok (store (camp\<lparr>c_email_subject := None, c_email_template := None\<rparr>))
          ''POST'' (request (Some [jane_id]))) = Processed 1 0 [] 1 \<and>
   snd (snd (serve env_ok (store (camp\<lparr>c_email_subject := None, c_email_template := None\<rparr>))
          ''POST'' (request (Some [jane_id])))) = [Email ''jane@example.com'' [] [] [] None] \<and>
   serve env_ok (store (camp\<lparr>c_message_type := ''sms''\<rparr>)) ''POST'' (request None) =
     (Processed 0 0 [] 2, store (camp\<lparr>c_message_type := ''sms''\<rparr>), [])"
  by code_simp




end
